theory Spec2Isabelle
  imports Complex_Main
begin

section \<open>Tensors, errors and reductions\<close>

text \<open>
  The losses of \<^verbatim>\<open>pycox/models/loss.py\<close> work on float tensors. They are embedded
  over the reals: a vector is a list, a matrix a list of rows, a rank-3 tensor a list of
  matrices. Integer tensors (duration indices, event types) are lists of \<open>int\<close>.
  The batch dimensions of the arguments of one call are taken to agree; the theorems
  state this as hypotheses on the lengths.
\<close>

type_synonym vec = "real list"
type_synonym mat = "real list list"
type_synonym tensor3 = "real list list list"

datatype tensor = T0 real | T1 vec | T2 mat

datatype error =
    TIdxTooLarge        \<comment> \<open>the ValueError raised by \<open>nll_pmf\<close>: 't_idx' too large\<close>
  | InvalidReduction    \<comment> \<open>the ValueError raised by \<open>_reduction\<close>\<close>
  | IndexOutOfBounds    \<comment> \<open>raised by the tensor backend: gather, scatter, indexing\<close>
  | EmptyReduction      \<comment> \<open>raised by the tensor backend: \<open>max()\<close> of a tensor without elements\<close>
  | ShapeMismatch       \<comment> \<open>raised by the tensor backend: operands cannot be broadcast\<close>
  | EmptyInput          \<comment> \<open>raised by the scaler on an array without samples\<close>
  | AttributeError      \<comment> \<open>Python: the attribute was never assigned\<close>
  | NotFitted           \<comment> \<open>the ValueError raised by \<open>map_scaled_to_orig\<close> before fit\<close>

definition bind_err :: "error + 'a \<Rightarrow> ('a \<Rightarrow> error + 'b) \<Rightarrow> error + 'b" where
  "bind_err m f = (case m of Inl e \<Rightarrow> Inl e | Inr x \<Rightarrow> f x)"

fun elems :: "tensor \<Rightarrow> real list" where
  "elems (T0 x) = [x]"
| "elems (T1 v) = v"
| "elems (T2 m) = concat m"

definition tsum :: "tensor \<Rightarrow> real" where
  "tsum t = sum_list (elems t)"

text \<open>The mean of a tensor without elements is nan in the backend; here it is the
  value of \<open>0 / 0\<close>, which HOL fixes as \<open>0\<close>. A mean is meaningful for a non-empty
  batch only.\<close>

definition tmean :: "tensor \<Rightarrow> real" where
  "tmean t = sum_list (elems t) / real (length (elems t))"

definition reduction_fn :: "tensor \<Rightarrow> string \<Rightarrow> error + tensor" where
  "reduction_fn loss reduction =
     (if reduction = ''none'' then Inr loss
      else if reduction = ''mean'' then Inr (T0 (tmean loss))
      else if reduction = ''sum'' then Inr (T0 (tsum loss))
      else Inl InvalidReduction)"

section \<open>Tensor operations used by the losses\<close>

text \<open>Modelled from the spec: \<open>pad_col\<close> lives in \<^verbatim>\<open>pycox/models/utils.py\<close>, which is
  not among the sources; the spec says it appends a zero column.\<close>

definition pad_col :: "mat \<Rightarrow> mat" where
  "pad_col phi = map (\<lambda>row. row @ [0]) phi"

definition relu :: "real \<Rightarrow> real" where
  "relu x = max 0 x"

text \<open>\<open>cumsum\<close> along a row: entry \<open>k\<close> is the sum of the entries up to and including \<open>k\<close>.\<close>

fun cumsum_from :: "real \<Rightarrow> vec \<Rightarrow> vec" where
  "cumsum_from acc [] = []"
| "cumsum_from acc (x # xs) = (acc + x) # cumsum_from (acc + x) xs"

definition cumsum :: "vec \<Rightarrow> vec" where
  "cumsum xs = cumsum_from 0 xs"

text \<open>The maximum of a row. The rows it is applied to are padded, hence non-empty;
  the first equation is never reached from the losses.\<close>

fun row_max :: "vec \<Rightarrow> real" where
  "row_max [] = 0"
| "row_max [x] = x"
| "row_max (x # y # ys) = max x (row_max (y # ys))"

fun int_max :: "int list \<Rightarrow> int" where
  "int_max [] = 0"
| "int_max [x] = x"
| "int_max (x # y # ys) = max x (int_max (y # ys))"

text \<open>\<open>shape[1]\<close> of a matrix given as a list of rows.\<close>

definition shape1 :: "'a list list \<Rightarrow> nat" where
  "shape1 m = (case m of [] \<Rightarrow> 0 | row # _ \<Rightarrow> length row)"

text \<open>\<open>m.gather(1, idx.view(-1, 1)).view(-1)\<close>: from row \<open>i\<close> the entry in column
  \<open>idx[i]\<close>. The backend's gather accepts no negative index and none beyond the row.\<close>

definition gather_entry :: "vec \<Rightarrow> int \<Rightarrow> error + real" where
  "gather_entry row d =
     (if 0 \<le> d \<and> d < int (length row) then Inr (row ! nat d) else Inl IndexOutOfBounds)"

fun gather1 :: "mat \<Rightarrow> int list \<Rightarrow> error + vec" where
  "gather1 (row # rows) (d # ds) =
     bind_err (gather_entry row d) (\<lambda>x. bind_err (gather1 rows ds) (\<lambda>xs. Inr (x # xs)))"
| "gather1 _ _ = Inr []"

section \<open>nll_pmf\<close>

definition nll_pmf :: "mat \<Rightarrow> int list \<Rightarrow> vec \<Rightarrow> string \<Rightarrow> real \<Rightarrow> error + tensor" where
  "nll_pmf phi idx_durations events reduction epsilon =
     (if idx_durations = [] then Inl EmptyReduction
      else if int_max idx_durations \<ge> int (shape1 phi) then Inl TIdxTooLarge
      else
        let phi' = pad_col phi;
            gamma = map row_max phi';
            cs = map2 (\<lambda>row g. cumsum (map (\<lambda>x. exp (x - g)) row)) phi' gamma;
            sum1 = map last cs
        in bind_err (gather1 phi' idx_durations) (\<lambda>g1.
           let part1 = map2 (*) (map2 (-) g1 gamma) events;
               part2 = map (\<lambda>s. - ln (relu s + epsilon)) sum1
           in bind_err (gather1 cs idx_durations) (\<lambda>g3.
              let part3 = map2 (*) (map (\<lambda>x. ln (relu x + epsilon)) (map2 (-) sum1 g3))
                                   (map (\<lambda>e. 1 - e) events);
                  loss = map uminus (map2 (+) (map2 (+) part1 part2) part3)
              in reduction_fn (T1 loss) reduction)))"

text \<open>The quantities the specification names for one row of \<open>phi\<close>: the maximum
  \<open>gamma\<close> of the zero-padded row, the cumulative sums of \<open>exp (phi - gamma)\<close> over
  the padded columns, and the last of them.\<close>

definition pmf_gamma :: "vec \<Rightarrow> real" where
  "pmf_gamma row = Max (set (row @ [0]))"

definition pmf_cumsum :: "vec \<Rightarrow> nat \<Rightarrow> real" where
  "pmf_cumsum row k = (\<Sum>j\<le>k. exp ((row @ [0]) ! j - pmf_gamma row))"

definition pmf_sum :: "vec \<Rightarrow> real" where
  "pmf_sum row = pmf_cumsum row (length row)"

text \<open>The loss of one sample, with the event indicator as a weight.\<close>

definition sample_nll :: "vec \<Rightarrow> int \<Rightarrow> real \<Rightarrow> real \<Rightarrow> real" where
  "sample_nll row d e eps =
     - (((row @ [0]) ! nat d - pmf_gamma row) * e
        + - ln (relu (pmf_sum row) + eps)
        + ln (relu (pmf_sum row - pmf_cumsum row (nat d)) + eps) * (1 - e))"

section \<open>The ranking loss of DeepHit\<close>

definition softmax :: "vec \<Rightarrow> vec" where
  "softmax xs = map (\<lambda>x. exp x / sum_list (map exp xs)) xs"

definition zeros_like :: "mat \<Rightarrow> mat" where
  "zeros_like m = map (map (\<lambda>_. 0)) m"

text \<open>\<open>m.scatter(1, idx.view(-1, 1), v)\<close>: in row \<open>i\<close> the entry in column \<open>idx[i]\<close>
  becomes \<open>v\<close>; like gather, scatter accepts no index outside the row.\<close>

definition scatter_entry :: "vec \<Rightarrow> int \<Rightarrow> real \<Rightarrow> error + vec" where
  "scatter_entry row d v =
     (if 0 \<le> d \<and> d < int (length row) then Inr (row[nat d := v]) else Inl IndexOutOfBounds)"

fun scatter1 :: "mat \<Rightarrow> int list \<Rightarrow> real \<Rightarrow> error + mat" where
  "scatter1 (row # rows) (d # ds) v =
     bind_err (scatter_entry row d v) (\<lambda>r. bind_err (scatter1 rows ds v) (\<lambda>rs. Inr (r # rs)))"
| "scatter1 rows [] v = Inr rows"
| "scatter1 [] ds v = Inr []"

text \<open>\<open>m.transpose(0, 1)\<close> of a matrix whose rows have one length.\<close>

definition transpose01 :: "mat \<Rightarrow> mat" where
  "transpose01 m = map (\<lambda>j. map (\<lambda>row. row ! j) m) [0..<shape1 m]"

definition dot :: "vec \<Rightarrow> vec \<Rightarrow> real" where
  "dot a b = sum_list (map2 (*) a b)"

definition matmul :: "mat \<Rightarrow> mat \<Rightarrow> mat" where
  "matmul a b = map (\<lambda>row. map (dot row) (transpose01 b)) a"

definition diag :: "mat \<Rightarrow> vec" where
  "diag m = map (\<lambda>i. m ! i ! i) [0..<length m]"

definition mat_sub :: "mat \<Rightarrow> mat \<Rightarrow> mat" where
  "mat_sub a b = map2 (map2 (-)) a b"

definition diff_cdf_at_time_i :: "mat \<Rightarrow> mat \<Rightarrow> mat" where
  "diff_cdf_at_time_i pmf y =
     (let n = length pmf;
          ones = replicate n [1];
          r = matmul (map cumsum pmf) (transpose01 y);
          diag_r = [diag r];
          r = mat_sub (matmul ones diag_r) r
      in transpose01 r)"

definition rank_loss_deephit :: "mat \<Rightarrow> mat \<Rightarrow> mat \<Rightarrow> real \<Rightarrow> string \<Rightarrow> error + tensor" where
  "rank_loss_deephit pmf y rank_mat sigma reduction =
     (let r = diff_cdf_at_time_i pmf y;
          loss = map2 (map2 (*)) rank_mat (map (map (\<lambda>x. exp (- x / sigma))) r);
          loss = map (\<lambda>row. [sum_list row / real (length row)]) loss
      in reduction_fn (T2 loss) reduction)"

definition rank_loss_deephit_single ::
  "mat \<Rightarrow> int list \<Rightarrow> vec \<Rightarrow> mat \<Rightarrow> real \<Rightarrow> string \<Rightarrow> error + tensor" where
  "rank_loss_deephit_single phi idx_durations events rank_mat sigma reduction =
     (let pmf = map softmax (pad_col phi)
      in bind_err (scatter1 (zeros_like pmf) idx_durations 1) (\<lambda>y.
           rank_loss_deephit pmf y rank_mat sigma reduction))"

section \<open>Competing risks\<close>

text \<open>Indexing a dimension of size \<open>n\<close> with an index tensor: a negative index counts
  from the end, an index outside \<open>[-n, n)\<close> raises.\<close>

definition wrap_index :: "nat \<Rightarrow> int \<Rightarrow> error + nat" where
  "wrap_index n i =
     (if 0 \<le> i \<and> i < int n then Inr (nat i)
      else if - int n \<le> i \<and> i < 0 then Inr (nat (i + int n))
      else Inl IndexOutOfBounds)"

text \<open>\<open>view\<close> of a flat row of \<open>R * K\<close> entries as \<open>R\<close> rows of \<open>K\<close>.\<close>

definition unflatten :: "nat \<Rightarrow> nat \<Rightarrow> vec \<Rightarrow> mat" where
  "unflatten R K xs = map (\<lambda>r. take K (drop (r * K) xs)) [0..<R]"

definition shape2 :: "'a list list list \<Rightarrow> nat" where
  "shape2 t = (case t of [] \<Rightarrow> 0 | s # _ \<Rightarrow> shape1 s)"

text \<open>\<open>pad_col(phi.view(batch_size, -1)).softmax(1)[:, :-1].view(phi.shape)\<close>\<close>

definition joint_pmf :: "tensor3 \<Rightarrow> tensor3" where
  "joint_pmf phi =
     map (unflatten (shape1 phi) (shape2 phi))
       (map butlast (map softmax (pad_col (map concat phi))))"

text \<open>\<open>t[arange(batch), es, ds]\<close>: from sample \<open>i\<close> the entry at risk \<open>es[i]\<close>
  and duration \<open>ds[i]\<close>.\<close>

definition index_rd :: "mat \<Rightarrow> int \<Rightarrow> int \<Rightarrow> error + real" where
  "index_rd s e d =
     bind_err (wrap_index (length s) e) (\<lambda>r.
     bind_err (wrap_index (length (s ! r)) d) (\<lambda>k. Inr (s ! r ! k)))"

fun index3 :: "tensor3 \<Rightarrow> int list \<Rightarrow> int list \<Rightarrow> error + vec" where
  "index3 (s # ss) (e # es) (d # ds) =
     bind_err (index_rd s e d) (\<lambda>x. bind_err (index3 ss es ds) (\<lambda>xs. Inr (x # xs)))"
| "index3 _ _ _ = Inr []"

text \<open>\<open>t[arange(batch), :, ds]\<close>: from sample \<open>i\<close> the column \<open>ds[i]\<close> over all risks.\<close>

definition index_col :: "mat \<Rightarrow> int \<Rightarrow> error + vec" where
  "index_col s d = bind_err (wrap_index (shape1 s) d) (\<lambda>k. Inr (map (\<lambda>row. row ! k) s))"

fun index_cols :: "tensor3 \<Rightarrow> int list \<Rightarrow> error + mat" where
  "index_cols (s # ss) (d # ds) =
     bind_err (index_col s d) (\<lambda>x. bind_err (index_cols ss ds) (\<lambda>xs. Inr (x # xs)))"
| "index_cols _ _ = Inr []"

text \<open>\<open>events.view(-1) - 1\<close> and \<open>(events != -1).float()\<close>\<close>

definition remap_events :: "int list \<Rightarrow> int list" where
  "remap_events events0 = map (\<lambda>e. e - 1) events0"

definition event_indicator :: "int list \<Rightarrow> vec" where
  "event_indicator events = map (\<lambda>e. if e \<noteq> - 1 then 1 else 0) events"

definition nll_pmf_cr :: "tensor3 \<Rightarrow> int list \<Rightarrow> int list \<Rightarrow> string \<Rightarrow> real \<Rightarrow> error + tensor" where
  "nll_pmf_cr phi idx_durations events0 reduction epsilon =
     (let events = remap_events events0;
          event_01 = event_indicator events;
          sm = joint_pmf phi
      in bind_err (index3 sm events idx_durations) (\<lambda>g1.
         let part1 = map2 (*) (map (\<lambda>x. ln (relu x + epsilon)) g1) event_01
         in bind_err (index_cols (map (map cumsum) sm) idx_durations) (\<lambda>g2.
            let part2 = map2 (*) (map (\<lambda>row. ln (relu (1 - sum_list row) + epsilon)) g2)
                                 (map (\<lambda>e. 1 - e) event_01);
                loss = map uminus (map2 (+) part1 part2)
            in reduction_fn (T1 loss) reduction)))"

text \<open>\<open>y[arange(batch), :, ds] = v\<close>\<close>

definition set_col :: "mat \<Rightarrow> int \<Rightarrow> real \<Rightarrow> error + mat" where
  "set_col s d v = bind_err (wrap_index (shape1 s) d) (\<lambda>k. Inr (map (\<lambda>row. row[k := v]) s))"

fun set_cols :: "tensor3 \<Rightarrow> int list \<Rightarrow> real \<Rightarrow> error + tensor3" where
  "set_cols (s # ss) (d # ds) v =
     bind_err (set_col s d v) (\<lambda>x. bind_err (set_cols ss ds v) (\<lambda>xs. Inr (x # xs)))"
| "set_cols ss [] v = Inr ss"
| "set_cols [] ds v = Inr []"

text \<open>Elementwise arithmetic of two tensors with the backend's broadcasting: a dimension
  of size one is repeated, a vector meets a matrix as a single row.\<close>

definition bc_vec :: "(real \<Rightarrow> real \<Rightarrow> real) \<Rightarrow> vec \<Rightarrow> vec \<Rightarrow> error + vec" where
  "bc_vec f u v =
     (if length u = length v then Inr (map2 f u v)
      else if length u = 1 then Inr (map (f (hd u)) v)
      else if length v = 1 then Inr (map (\<lambda>x. f x (hd v)) u)
      else Inl ShapeMismatch)"

fun sequence_err :: "(error + 'a) list \<Rightarrow> error + 'a list" where
  "sequence_err [] = Inr []"
| "sequence_err (m # ms) = bind_err m (\<lambda>x. bind_err (sequence_err ms) (\<lambda>xs. Inr (x # xs)))"

definition bc_mat :: "(real \<Rightarrow> real \<Rightarrow> real) \<Rightarrow> mat \<Rightarrow> mat \<Rightarrow> error + mat" where
  "bc_mat f a b =
     (if length a = length b then sequence_err (map2 (bc_vec f) a b)
      else if length a = 1 then sequence_err (map (bc_vec f (hd a)) b)
      else if length b = 1 then sequence_err (map (\<lambda>row. bc_vec f row (hd b)) a)
      else Inl ShapeMismatch)"

fun tbin :: "(real \<Rightarrow> real \<Rightarrow> real) \<Rightarrow> tensor \<Rightarrow> tensor \<Rightarrow> error + tensor" where
  "tbin f (T0 a) (T0 b) = Inr (T0 (f a b))"
| "tbin f (T0 a) (T1 v) = Inr (T1 (map (f a) v))"
| "tbin f (T0 a) (T2 m) = Inr (T2 (map (map (f a)) m))"
| "tbin f (T1 u) (T0 b) = Inr (T1 (map (\<lambda>x. f x b) u))"
| "tbin f (T2 m) (T0 b) = Inr (T2 (map (map (\<lambda>x. f x b)) m))"
| "tbin f (T1 u) (T1 v) = bind_err (bc_vec f u v) (\<lambda>w. Inr (T1 w))"
| "tbin f (T1 u) (T2 m) = bind_err (bc_mat f [u] m) (\<lambda>w. Inr (T2 w))"
| "tbin f (T2 m) (T1 v) = bind_err (bc_mat f m [v]) (\<lambda>w. Inr (T2 w))"
| "tbin f (T2 a) (T2 b) = bind_err (bc_mat f a b) (\<lambda>w. Inr (T2 w))"

definition tadd :: "tensor \<Rightarrow> tensor \<Rightarrow> error + tensor" where
  "tadd = tbin (+)"

fun smul :: "real \<Rightarrow> tensor \<Rightarrow> tensor" where
  "smul a (T0 x) = T0 (a * x)"
| "smul a (T1 v) = T1 (map ((*) a) v)"
| "smul a (T2 m) = T2 (map (map ((*) a)) m)"

text \<open>Python's \<open>sum\<close> of a list of tensors: \<open>0 + t1 + t2 + ...\<close>\<close>

fun py_sum_from :: "tensor \<Rightarrow> tensor list \<Rightarrow> error + tensor" where
  "py_sum_from acc [] = Inr acc"
| "py_sum_from acc (t # ts) = bind_err (tadd acc t) (\<lambda>acc'. py_sum_from acc' ts)"

definition py_sum :: "tensor list \<Rightarrow> error + tensor" where
  "py_sum ts = py_sum_from (T0 0) ts"

text \<open>The loop over the risks of \<open>rank_loss_deephit_cr\<close>; \<open>events\<close> are the event
  types after the subtraction of one, \<open>loss\<close> the list built so far.\<close>

fun rank_loss_cr_loop ::
  "tensor3 \<Rightarrow> tensor3 \<Rightarrow> int list \<Rightarrow> mat \<Rightarrow> real \<Rightarrow> nat list \<Rightarrow> vec list \<Rightarrow> error + vec list" where
  "rank_loss_cr_loop pmf y events rank_mat sigma [] loss = Inr loss"
| "rank_loss_cr_loop pmf y events rank_mat sigma (i # risks) loss =
     bind_err (rank_loss_deephit (map (\<lambda>s. s ! i) pmf) (map (\<lambda>s. s ! i) y) rank_mat sigma ''none'')
       (\<lambda>rank_loss_i.
          rank_loss_cr_loop pmf y events rank_mat sigma risks
            (loss @ [map2 (*) (elems rank_loss_i)
                        (map (\<lambda>e. if e = int i then 1 else 0) events)]))"

definition rank_loss_deephit_cr ::
  "tensor3 \<Rightarrow> int list \<Rightarrow> int list \<Rightarrow> mat \<Rightarrow> real \<Rightarrow> string \<Rightarrow> error + tensor" where
  "rank_loss_deephit_cr phi idx_durations events0 rank_mat sigma reduction =
     (let events = remap_events events0;
          n_risks = shape1 phi;
          pmf = joint_pmf phi
      in bind_err (set_cols (map zeros_like pmf) idx_durations 1) (\<lambda>y.
         bind_err (rank_loss_cr_loop pmf y events rank_mat sigma [0..<n_risks] []) (\<lambda>loss.
           if reduction = ''none'' then py_sum (map T1 loss)
           else if reduction = ''mean'' then py_sum (map (\<lambda>lo. T0 (tmean (T1 lo))) loss)
           else if reduction = ''sum'' then py_sum (map (\<lambda>lo. T0 (tsum (T1 lo))) loss)
           else Inl InvalidReduction)))"

section \<open>Loss modules\<close>

text \<open>A module is the record of its fields; \<open>forward\<close> returns its result together
  with the module after the call. \<open>DeepHitSingleLoss\<close> and \<open>DeepHitLoss\<close> have the
  same fields.\<close>

record Loss =
  reduction :: string

record DeepHit = Loss +
  alpha :: real
  sigma :: real

definition default_epsilon :: real where
  "default_epsilon = 1 / 10 ^ 7"

definition NLLPMFLoss_forward ::
  "Loss \<Rightarrow> mat \<Rightarrow> int list \<Rightarrow> vec \<Rightarrow> (error + tensor) \<times> Loss" where
  "NLLPMFLoss_forward self phi idx_durations events =
     (nll_pmf phi idx_durations events (reduction self) default_epsilon, self)"

definition DeepHitSingleLoss_forward ::
  "DeepHit \<Rightarrow> mat \<Rightarrow> int list \<Rightarrow> vec \<Rightarrow> mat \<Rightarrow> (error + tensor) \<times> DeepHit" where
  "DeepHitSingleLoss_forward self phi idx_durations events rank_mat =
     (bind_err (nll_pmf phi idx_durations events (reduction self) default_epsilon) (\<lambda>nll.
      bind_err (rank_loss_deephit_single phi idx_durations events rank_mat (sigma self)
                  (reduction self)) (\<lambda>rank_loss.
        tadd (smul (alpha self) nll) (smul (1 - alpha self) rank_loss))), self)"

definition DeepHitLoss_forward ::
  "DeepHit \<Rightarrow> tensor3 \<Rightarrow> int list \<Rightarrow> int list \<Rightarrow> mat \<Rightarrow> (error + tensor) \<times> DeepHit" where
  "DeepHitLoss_forward self phi idx_durations events rank_mat =
     (bind_err (nll_pmf_cr phi idx_durations events (reduction self) default_epsilon) (\<lambda>nll.
      bind_err (rank_loss_deephit_cr phi idx_durations events rank_mat (sigma self)
                  (reduction self)) (\<lambda>rank_loss.
        tadd (smul (alpha self) nll) (smul (1 - alpha self) rank_loss))), self)"

section \<open>Label transforms\<close>

subsection \<open>LabTransCoxTime\<close>

text \<open>The arithmetic of the label transform is floating point: every operation of
  the scaler and \<open>log1p\<close> give the exact result rounded by a rounding function \<open>fl\<close>,
  a parameter of the definitions. Double precision is \<open>fl64\<close>: rounding to the nearest
  number with 53 significant bits, ties to the even one. Its exponent range is not
  bounded here, so overflow, subnormal numbers and nan are outside the model.\<close>

definition round_half_even :: "real \<Rightarrow> int" where
  "round_half_even x =
     (let f = \<lfloor>x\<rfloor>; r = x - of_int f
      in if r < 1 / 2 then f else if 1 / 2 < r then f + 1 else if even f then f else f + 1)"

definition fl64 :: "real \<Rightarrow> real" where
  "fl64 x =
     (if x = 0 then 0
      else let e = \<lfloor>log 2 \<bar>x\<bar>\<rfloor> - 52
           in of_int (round_half_even (x / 2 powr of_int e)) * 2 powr of_int e)"

text \<open>The scaler is scikit-learn's \<open>StandardScaler\<close> on one column, after its
  documentation: \<open>fit\<close> refuses an empty column and stores the mean of the column
  (under \<open>with_mean\<close> or \<open>with_std\<close>) and its standard deviation (under \<open>with_std\<close>,
  a standard deviation of zero is replaced by one); \<open>transform\<close> subtracts the mean
  under \<open>with_mean\<close> and divides by the standard deviation under \<open>with_std\<close>. Sums
  are accumulated from left to right.\<close>

record StandardScaler =
  with_mean :: bool
  with_std :: bool
  fitted_mean :: "real option"
  fitted_scale :: "real option"

fun fl_sum :: "(real \<Rightarrow> real) \<Rightarrow> vec \<Rightarrow> real" where
  "fl_sum fl [] = 0"
| "fl_sum fl (x # xs) = foldl (\<lambda>a y. fl (a + y)) x xs"

definition column_mean :: "(real \<Rightarrow> real) \<Rightarrow> vec \<Rightarrow> real" where
  "column_mean fl xs = fl (fl_sum fl xs / real (length xs))"

definition column_scale :: "(real \<Rightarrow> real) \<Rightarrow> vec \<Rightarrow> real" where
  "column_scale fl xs =
     (let m = column_mean fl xs;
          var = fl (fl_sum fl (map (\<lambda>x. fl ((fl (x - m))\<^sup>2)) xs) / real (length xs));
          s = fl (sqrt var)
      in if s = 0 then 1 else s)"

definition scaler_transform :: "(real \<Rightarrow> real) \<Rightarrow> StandardScaler \<Rightarrow> vec \<Rightarrow> error + vec" where
  "scaler_transform fl sc xs =
     (if (with_mean sc \<and> fitted_mean sc = None) \<or> (with_std sc \<and> fitted_scale sc = None)
      then Inl NotFitted
      else Inr (map (\<lambda>x.
             let x1 = (case fitted_mean sc of
                         Some m \<Rightarrow> if with_mean sc then fl (x - m) else x
                       | None \<Rightarrow> x)
             in case fitted_scale sc of
                  Some s \<Rightarrow> if with_std sc then fl (x1 / s) else x1
                | None \<Rightarrow> x1) xs))"

definition scaler_fit_transform ::
  "(real \<Rightarrow> real) \<Rightarrow> StandardScaler \<Rightarrow> vec \<Rightarrow> error + StandardScaler \<times> vec" where
  "scaler_fit_transform fl sc xs =
     (if xs = [] then Inl EmptyInput
      else let sc' = sc\<lparr>fitted_mean :=
                            (if with_mean sc \<or> with_std sc then Some (column_mean fl xs)
                             else None),
                          fitted_scale :=
                            (if with_std sc then Some (column_scale fl xs) else None)\<rparr>
           in bind_err (scaler_transform fl sc' xs) (\<lambda>ys. Inr (sc', ys)))"

record LabTransCoxTime =
  log_duration :: bool
  duration_scaler :: StandardScaler
  inverse_duration_map :: "(real \<rightharpoonup> real) option"

definition LabTransCoxTime_init :: "bool \<Rightarrow> bool \<Rightarrow> bool \<Rightarrow> LabTransCoxTime" where
  "LabTransCoxTime_init log_dur w_mean w_std =
     \<lparr>log_duration = log_dur,
      duration_scaler = \<lparr>with_mean = w_mean, with_std = w_std,
                          fitted_mean = None, fitted_scale = None\<rparr>,
      inverse_duration_map = None\<rparr>"

text \<open>The dict comprehension \<open>{scaled: orig for orig, scaled in zip(...)}\<close>: a later
  pair replaces an earlier one with the same key.\<close>

fun dict_of :: "('k \<times> 'v) list \<Rightarrow> ('k \<rightharpoonup> 'v) \<Rightarrow> ('k \<rightharpoonup> 'v)" where
  "dict_of [] m = m"
| "dict_of ((k, v) # kvs) m = dict_of kvs (m(k \<mapsto> v))"

definition log1p :: "(real \<Rightarrow> real) \<Rightarrow> real \<Rightarrow> real" where
  "log1p fl x = fl (ln (1 + x))"

definition LabTransCoxTime_fit_transform ::
  "(real \<Rightarrow> real) \<Rightarrow> LabTransCoxTime \<Rightarrow> vec \<Rightarrow> vec \<Rightarrow>
   error + (vec \<times> vec) \<times> LabTransCoxTime" where
  "LabTransCoxTime_fit_transform fl self durations0 events =
     (let train_durations = durations0;
          durations = (if log_duration self then map (log1p fl) durations0 else durations0)
      in bind_err (scaler_fit_transform fl (duration_scaler self) durations) (\<lambda>(sc, durations).
           Inr ((durations, events),
                self\<lparr>duration_scaler := sc,
                     inverse_duration_map :=
                       Some (dict_of (zip durations train_durations) Map.empty)\<rparr>)))"

text \<open>The property \<open>map_scaled_to_orig\<close> applied to an array of keys: the vectorised
  \<open>dict.get\<close>, which gives \<open>None\<close> for a key that is not in the dict.\<close>

definition map_scaled_to_orig :: "LabTransCoxTime \<Rightarrow> vec \<Rightarrow> error + real option list" where
  "map_scaled_to_orig self keys =
     (case inverse_duration_map self of
        None \<Rightarrow> Inl NotFitted
      | Some m \<Rightarrow> Inr (map m keys))"

text \<open>\<open>fit_transform\<close> followed by \<open>map_scaled_to_orig\<close> on the transformed
  durations.\<close>

definition fit_transform_then_map_back ::
  "(real \<Rightarrow> real) \<Rightarrow> LabTransCoxTime \<Rightarrow> vec \<Rightarrow> vec \<Rightarrow> error + real option list" where
  "fit_transform_then_map_back fl self durations events =
     bind_err (LabTransCoxTime_fit_transform fl self durations events)
       (\<lambda>((scaled, events'), self'). map_scaled_to_orig self' scaled)"

subsection \<open>LabTransDiscreteSurv\<close>

text \<open>The argument \<open>cuts\<close> of the constructor is an int, a tuple of a scheme name and
  an int, or an array of cut points.\<close>

datatype cuts_arg = CutsInt int | CutsTuple string int | CutsArray "real list"

text \<open>The attributes \<open>cuts\<close> and \<open>idu\<close> do not exist before they are assigned:
  \<open>None\<close> stands for the absent attribute. The index mapper \<open>idu\<close> is the object
  \<open>IdxDiscUnknownC(cuts)\<close>, kept as the cuts it was built from.\<close>

record LabTransDiscreteSurv =
  predefinded_cuts :: bool
  cuts_given :: cuts_arg
  min_duration :: real
  cuts :: "real list option"
  idu :: "real list option"

definition LabTransDiscreteSurv_init :: "cuts_arg \<Rightarrow> real \<Rightarrow> error + LabTransDiscreteSurv" where
  "LabTransDiscreteSurv_init cuts0 min0 =
     (case cuts0 of
        CutsInt k \<Rightarrow>
          Inr \<lparr>predefinded_cuts = False, cuts_given = CutsTuple ''equidistant'' k,
               min_duration = min0, cuts = None, idu = None\<rparr>
      | CutsTuple scheme k \<Rightarrow>
          Inr \<lparr>predefinded_cuts = False, cuts_given = cuts0,
               min_duration = min0, cuts = None, idu = None\<rparr>
      | CutsArray [] \<Rightarrow> Inl IndexOutOfBounds
      | CutsArray (c # cs) \<Rightarrow>
          Inr \<lparr>predefinded_cuts = True, cuts_given = cuts0,
               min_duration = min0, cuts = None, idu = None\<rparr>)"

text \<open>\<open>make_cuts\<close> and \<open>IdxDiscUnknownC\<close> live in
  \<^verbatim>\<open>pycox/preprocessing/discretization.py\<close>, which is not among the sources: they
  are parameters of \<open>fit\<close> and \<open>transform\<close>. \<open>fit\<close> returns the instance and the
  warnings it issued.\<close>

definition already_defined_warning :: string where
  "already_defined_warning =
     ''Calling fit method, when 'cuts' are allready definded. Leaving cuts unchanges.''"

definition LabTransDiscreteSurv_fit ::
  "(cuts_arg \<Rightarrow> vec \<Rightarrow> vec \<Rightarrow> real \<Rightarrow> error + real list) \<Rightarrow>
   LabTransDiscreteSurv \<Rightarrow> vec \<Rightarrow> vec \<Rightarrow> error + LabTransDiscreteSurv \<times> string list" where
  "LabTransDiscreteSurv_fit make_cuts self durations events =
     (if predefinded_cuts self then Inr (self, [already_defined_warning])
      else bind_err (make_cuts (cuts_given self) durations events (min_duration self)) (\<lambda>cs.
             Inr (self\<lparr>cuts := Some cs, idu := Some cs\<rparr>, [])))"

definition LabTransDiscreteSurv_transform ::
  "(real list \<Rightarrow> vec \<Rightarrow> vec \<Rightarrow> error + int list \<times> vec) \<Rightarrow>
   LabTransDiscreteSurv \<Rightarrow> vec \<Rightarrow> vec \<Rightarrow> error + int list \<times> vec" where
  "LabTransDiscreteSurv_transform idu_transform self durations events =
     (case idu self of
        None \<Rightarrow> Inl AttributeError
      | Some cs \<Rightarrow> idu_transform cs durations events)"

section \<open>Quantities of the specification\<close>

text \<open>The cumulative distribution of one row of a pmf matrix, the one-hot row that marks
  bin \<open>t\<close> among \<open>m\<close> bins, and matrices of \<open>n\<close> rows and \<open>m\<close> columns.\<close>

definition cdf :: "vec \<Rightarrow> nat \<Rightarrow> real" where
  "cdf row t = (\<Sum>k\<le>t. row ! k)"

definition one_hot :: "nat \<Rightarrow> nat \<Rightarrow> vec" where
  "one_hot m t = map (\<lambda>k. if k = t then 1 else 0) [0..<m]"

definition rect :: "nat \<Rightarrow> nat \<Rightarrow> mat \<Rightarrow> bool" where
  "rect n m a = (length a = n \<and> (\<forall>i<n. length (a ! i) = m))"

text \<open>The loss of one sample of \<open>nll_pmf_cr\<close> with event type \<open>e\<close> (0 for a
  censored sample) and duration index \<open>d\<close>, from the joint pmf \<open>sm\<close> of the sample
  over risks and durations.\<close>

definition sample_nll_cr :: "mat \<Rightarrow> int \<Rightarrow> int \<Rightarrow> real \<Rightarrow> real" where
  "sample_nll_cr sm e d eps =
     (if e = 0 then - ln (relu (1 - sum_list (map (\<lambda>row. cumsum row ! nat d) sm)) + eps)
      else - ln (relu (sm ! nat (e - 1) ! nat d) + eps))"

text \<open>A rank-3 tensor of shape \<open>[n, R, K]\<close>.\<close>

definition shaped3 :: "nat \<Rightarrow> nat \<Rightarrow> nat \<Rightarrow> tensor3 \<Rightarrow> bool" where
  "shaped3 n R K t = (length t = n \<and> (\<forall>s\<in>set t. rect R K s))"

text \<open>The reduction modes of a loss agree: where \<open>'none'\<close> gives a tensor, \<open>'sum'\<close>
  gives the sum and \<open>'mean'\<close> the mean of its entries; where \<open>'none'\<close> raises, the other
  two raise the same error. The loss is given as a function of the reduction mode.\<close>

definition reductions_consistent :: "(string \<Rightarrow> error + tensor) \<Rightarrow> bool" where
  "reductions_consistent f =
     (case f ''none'' of
        Inr t \<Rightarrow> f ''sum'' = Inr (T0 (tsum t)) \<and> f ''mean'' = Inr (T0 (tmean t))
      | Inl e \<Rightarrow> f ''sum'' = Inl e \<and> f ''mean'' = Inl e)"


section \<open>Proofs: basic facts about the tensor operations\<close>


lemma bind_err_simps [simp]:
  "bind_err (Inl e) f = Inl e" "bind_err (Inr x) f = f x"
  by (simp_all add: bind_err_def)

lemma gather1_ok:
  "length ds = length m \<Longrightarrow> (\<forall>(row, d) \<in> set (zip m ds). 0 \<le> d \<and> d < int (length row))
   \<Longrightarrow> gather1 m ds = Inr (map2 (\<lambda>row d. row ! nat d) m ds)"
proof (induction m ds rule: gather1.induct)
  case (1 row rows d ds)
  then show ?case by (simp add: gather_entry_def)
qed simp_all

lemma cumsum_from_length [simp]: "length (cumsum_from a xs) = length xs"
  by (induction xs arbitrary: a) simp_all

lemma cumsum_from_nth:
  "k < length xs \<Longrightarrow> cumsum_from a xs ! k = a + (\<Sum>j\<le>k. xs ! j)"
proof (induction xs arbitrary: a k)
  case Nil then show ?case by simp
next
  case (Cons x xs)
  show ?case
  proof (cases k)
    case 0 then show ?thesis by simp
  next
    case (Suc k')
    have "(\<Sum>j\<le>Suc k'. (x # xs) ! j) = x + (\<Sum>j\<le>k'. xs ! j)"
      by (simp add: sum.atMost_Suc_shift del: sum.atMost_Suc)
    with Cons Suc show ?thesis by simp
  qed
qed

lemma cumsum_length [simp]: "length (cumsum xs) = length xs"
  by (simp add: cumsum_def)

lemma cumsum_nth: "k < length xs \<Longrightarrow> cumsum xs ! k = (\<Sum>j\<le>k. xs ! j)"
  by (simp add: cumsum_def cumsum_from_nth)

lemma cumsum_last: "xs \<noteq> [] \<Longrightarrow> last (cumsum xs) = (\<Sum>j\<le>length xs - 1. xs ! j)"
proof -
  assume "xs \<noteq> []"
  then have "cumsum xs \<noteq> []" by (metis cumsum_length length_0_conv)
  then have "last (cumsum xs) = cumsum xs ! (length xs - 1)"
    by (simp add: last_conv_nth)
  with \<open>xs \<noteq> []\<close> show ?thesis by (simp add: cumsum_nth)
qed

lemma row_max_Max: "xs \<noteq> [] \<Longrightarrow> row_max xs = Max (set xs)"
  by (induction xs rule: row_max.induct) simp_all

lemma int_max_lt: "ds \<noteq> [] \<Longrightarrow> (int_max ds < k) = (\<forall>d\<in>set ds. d < k)"
  by (induction ds rule: int_max.induct) auto

section \<open>Proofs: nll_pmf\<close>

lemma shape1_rows: "phi \<noteq> [] \<Longrightarrow> \<forall>row\<in>set phi. length row = K \<Longrightarrow> shape1 phi = K"
  by (cases phi) (simp_all add: shape1_def)

lemma padded_cumsum_last:
  "last (cumsum (map (\<lambda>x. exp (x - pmf_gamma row)) (row @ [0]))) = pmf_sum row"
proof -
  have "last (cumsum (map (\<lambda>x. exp (x - pmf_gamma row)) (row @ [0])))
        = (\<Sum>j\<le>length row. map (\<lambda>x. exp (x - pmf_gamma row)) (row @ [0]) ! j)"
    by (subst cumsum_last) simp_all
  also have "\<dots> = (\<Sum>j\<le>length row. exp ((row @ [0]) ! j - pmf_gamma row))"
    by (rule sum.cong) (simp_all add: nth_append)
  finally show ?thesis by (simp add: pmf_sum_def pmf_cumsum_def)
qed

lemma padded_cumsum_nth:
  assumes "k \<le> length row"
  shows "cumsum (map (\<lambda>x. exp (x - pmf_gamma row)) (row @ [0])) ! k = pmf_cumsum row k"
proof -
  have "cumsum (map (\<lambda>x. exp (x - pmf_gamma row)) (row @ [0])) ! k
        = (\<Sum>j\<le>k. map (\<lambda>x. exp (x - pmf_gamma row)) (row @ [0]) ! j)"
    using assms by (subst cumsum_nth) simp_all
  also have "\<dots> = (\<Sum>j\<le>k. exp ((row @ [0]) ! j - pmf_gamma row))"
    using assms by (intro sum.cong) (simp_all add: nth_append)
  finally show ?thesis by (simp add: pmf_cumsum_def)
qed

lemma nll_pmf_value:
  assumes len: "length idx = length phi" "length events = length phi"
    and rows: "\<forall>row\<in>set phi. length row = K"
    and rng: "\<forall>d\<in>set idx. 0 \<le> d \<and> d < int K"
    and ne: "phi \<noteq> []"
  shows "nll_pmf phi idx events red eps =
         reduction_fn
           (T1 (map (\<lambda>i. sample_nll (phi ! i) (idx ! i) (events ! i) eps) [0..<length phi]))
           red"
proof -
  let ?n = "length phi"
  let ?phi' = "pad_col phi"
  let ?gamma = "map row_max ?phi'"
  let ?cs = "map2 (\<lambda>row g. cumsum (map (\<lambda>x. exp (x - g)) row)) ?phi' ?gamma"
  have idx_ne: "idx \<noteq> []" using len ne by auto
  have nolarge: "\<not> int_max idx \<ge> int (shape1 phi)"
    using int_max_lt [OF idx_ne, of "int K"] rng shape1_rows [OF ne rows] by auto
  have gam: "?gamma ! i = pmf_gamma (phi ! i)" if "i < ?n" for i
    using that by (simp add: pad_col_def row_max_Max pmf_gamma_def)
  have cs: "?cs ! i = cumsum (map (\<lambda>x. exp (x - pmf_gamma (phi ! i))) (phi ! i @ [0]))"
    if "i < ?n" for i
    using that by (simp add: pad_col_def row_max_Max pmf_gamma_def)
  have inr: "0 \<le> idx ! i \<and> idx ! i < int K" if "i < ?n" for i
    using that rng len by (metis nth_mem)
  have rowK: "length (phi ! i) = K" if "i < ?n" for i
    using that rows by simp
  have g1: "gather1 ?phi' idx = Inr (map2 (\<lambda>row d. row ! nat d) ?phi' idx)"
  proof (rule gather1_ok)
    show "length idx = length ?phi'" using len by (simp add: pad_col_def)
    show "\<forall>(row, d)\<in>set (zip ?phi' idx). 0 \<le> d \<and> d < int (length row)"
    proof (clarsimp simp: in_set_zip pad_col_def)
      fix i assume "i < ?n" "i < length idx"
      then show "0 \<le> idx ! i \<and> idx ! i < 1 + int (length (phi ! i))"
        using inr [of i] rowK [of i] by simp
    qed
  qed
  have g3: "gather1 ?cs idx = Inr (map2 (\<lambda>row d. row ! nat d) ?cs idx)"
  proof (rule gather1_ok)
    show "length idx = length ?cs" using len by (simp add: pad_col_def)
    show "\<forall>(row, d)\<in>set (zip ?cs idx). 0 \<le> d \<and> d < int (length row)"
    proof (clarsimp simp: in_set_zip pad_col_def)
      fix i assume "i < ?n" "i < length idx"
      then show "0 \<le> idx ! i \<and> idx ! i < 1 + int (length (phi ! i))"
        using inr [of i] rowK [of i] by simp
    qed
  qed
  have "nll_pmf phi idx events red eps =
        reduction_fn (T1 (map uminus (map2 (+) (map2 (+)
           (map2 (*) (map2 (-) (map2 (\<lambda>row d. row ! nat d) ?phi' idx) ?gamma) events)
           (map (\<lambda>s. - ln (relu s + eps)) (map last ?cs)))
           (map2 (*) (map (\<lambda>x. ln (relu x + eps))
                (map2 (-) (map last ?cs) (map2 (\<lambda>row d. row ! nat d) ?cs idx)))
              (map (\<lambda>e. 1 - e) events))))) red"
    unfolding nll_pmf_def Let_def using idx_ne nolarge g1 g3
    by simp
  also have "\<dots> = reduction_fn
      (T1 (map (\<lambda>i. sample_nll (phi ! i) (idx ! i) (events ! i) eps) [0..<?n])) red"
  proof -
    have "map uminus (map2 (+) (map2 (+)
           (map2 (*) (map2 (-) (map2 (\<lambda>row d. row ! nat d) ?phi' idx) ?gamma) events)
           (map (\<lambda>s. - ln (relu s + eps)) (map last ?cs)))
           (map2 (*) (map (\<lambda>x. ln (relu x + eps))
                (map2 (-) (map last ?cs) (map2 (\<lambda>row d. row ! nat d) ?cs idx)))
              (map (\<lambda>e. 1 - e) events)))
        = map (\<lambda>i. sample_nll (phi ! i) (idx ! i) (events ! i) eps) [0..<?n]"
    proof (rule nth_equalityI)
      show "length (map uminus (map2 (+) (map2 (+)
           (map2 (*) (map2 (-) (map2 (\<lambda>row d. row ! nat d) ?phi' idx) ?gamma) events)
           (map (\<lambda>s. - ln (relu s + eps)) (map last ?cs)))
           (map2 (*) (map (\<lambda>x. ln (relu x + eps))
                (map2 (-) (map last ?cs) (map2 (\<lambda>row d. row ! nat d) ?cs idx)))
              (map (\<lambda>e. 1 - e) events))))
           = length (map (\<lambda>i. sample_nll (phi ! i) (idx ! i) (events ! i) eps) [0..<?n])"
        using len by (simp add: pad_col_def)
    next
      fix i
      assume "i < length (map uminus (map2 (+) (map2 (+)
           (map2 (*) (map2 (-) (map2 (\<lambda>row d. row ! nat d) ?phi' idx) ?gamma) events)
           (map (\<lambda>s. - ln (relu s + eps)) (map last ?cs)))
           (map2 (*) (map (\<lambda>x. ln (relu x + eps))
                (map2 (-) (map last ?cs) (map2 (\<lambda>row d. row ! nat d) ?cs idx)))
              (map (\<lambda>e. 1 - e) events))))"
      then have i: "i < ?n" using len by (simp add: pad_col_def)
      have d: "nat (idx ! i) \<le> length (phi ! i)" using inr [OF i] rowK [OF i] by linarith
      have l: "length ?cs = ?n" "length ?phi' = ?n" "length ?gamma = ?n"
        by (simp_all add: pad_col_def)
      have p: "?phi' ! i = phi ! i @ [0]" using i by (simp add: pad_col_def)
      show "map uminus (map2 (+) (map2 (+)
           (map2 (*) (map2 (-) (map2 (\<lambda>row d. row ! nat d) ?phi' idx) ?gamma) events)
           (map (\<lambda>s. - ln (relu s + eps)) (map last ?cs)))
           (map2 (*) (map (\<lambda>x. ln (relu x + eps))
                (map2 (-) (map last ?cs) (map2 (\<lambda>row d. row ! nat d) ?cs idx)))
              (map (\<lambda>e. 1 - e) events))) ! i
           = map (\<lambda>i. sample_nll (phi ! i) (idx ! i) (events ! i) eps) [0..<?n] ! i"
        using i len l gam [OF i] cs [OF i] p padded_cumsum_nth [OF d]
          padded_cumsum_last [of "phi ! i"]
        by (simp add: sample_nll_def del: map_append)
    qed
    then show ?thesis by simp
  qed
  finally show ?thesis .
qed

lemma nll_pmf_none:
  assumes "length idx = length phi" "length events = length phi"
    and "\<forall>row\<in>set phi. length row = K"
    and "\<forall>d\<in>set idx. 0 \<le> d \<and> d < int K"
    and "phi \<noteq> []"
  shows "nll_pmf phi idx events ''none'' eps =
         Inr (T1 (map (\<lambda>i. sample_nll (phi ! i) (idx ! i) (events ! i) eps) [0..<length phi]))"
  using nll_pmf_value [OF assms, of "''none''" eps] by (simp add: reduction_fn_def)

text \<open>
  Claim C1. With \<open>reduction = 'none'\<close>, \<open>nll_pmf\<close> returns one loss per sample. For a
  sample with event indicator 1 it is \<open>- (phi[i, idx_i] - gamma_i - log (sum_i))\<close>, for a
  sample with event indicator 0 it is \<open>- (log (sum_i - cumsum_i[idx_i]) - log (sum_i))\<close>,
  where \<open>gamma_i\<close> is the maximum of the zero-padded row, \<open>cumsum_i\<close> the cumulative
  sums of \<open>exp (phi - gamma_i)\<close> over the padded columns and \<open>sum_i\<close> the last of
  them; the argument of every logarithm is clamped at zero and raised by epsilon.
\<close>

theorem nll_pmf_per_sample:
  assumes "length idx = length phi" and "length events = length phi"
    and "\<forall>row\<in>set phi. length row = K"
    and "\<forall>d\<in>set idx. 0 \<le> d \<and> d < int K"
    and "phi \<noteq> []"
  shows "\<exists>loss. nll_pmf phi idx events ''none'' eps = Inr (T1 loss) \<and>
           length loss = length phi \<and>
           (\<forall>i<length phi.
              (events ! i = 1 \<longrightarrow>
                 loss ! i = - (phi ! i ! nat (idx ! i) - pmf_gamma (phi ! i)
                               - ln (relu (pmf_sum (phi ! i)) + eps))) \<and>
              (events ! i = 0 \<longrightarrow>
                 loss ! i = - (ln (relu (pmf_sum (phi ! i)
                                         - pmf_cumsum (phi ! i) (nat (idx ! i))) + eps)
                               - ln (relu (pmf_sum (phi ! i)) + eps))))"
proof -
  let ?loss = "map (\<lambda>i. sample_nll (phi ! i) (idx ! i) (events ! i) eps) [0..<length phi]"
  have out: "nll_pmf phi idx events ''none'' eps = Inr (T1 ?loss)"
    using assms by (rule nll_pmf_none)
  have terms: "(events ! i = 1 \<longrightarrow>
                 ?loss ! i = - (phi ! i ! nat (idx ! i) - pmf_gamma (phi ! i)
                               - ln (relu (pmf_sum (phi ! i)) + eps))) \<and>
              (events ! i = 0 \<longrightarrow>
                 ?loss ! i = - (ln (relu (pmf_sum (phi ! i)
                                         - pmf_cumsum (phi ! i) (nat (idx ! i))) + eps)
                               - ln (relu (pmf_sum (phi ! i)) + eps)))"
    if i: "i < length phi" for i
  proof -
    have "idx ! i \<in> set idx" using i assms(1) by simp
    then have "0 \<le> idx ! i" "idx ! i < int K" using assms(4) by auto
    moreover have "length (phi ! i) = K" using i assms(3) by simp
    ultimately have "nat (idx ! i) < length (phi ! i)" by linarith
    then have "(phi ! i @ [0]) ! nat (idx ! i) = phi ! i ! nat (idx ! i)"
      by (simp add: nth_append)
    then show ?thesis using i by (simp add: sample_nll_def)
  qed
  show ?thesis
  proof (intro exI conjI)
    show "nll_pmf phi idx events ''none'' eps = Inr (T1 ?loss)" by (rule out)
    show "length ?loss = length phi" by simp
    show "\<forall>i<length phi.
              (events ! i = 1 \<longrightarrow>
                 ?loss ! i = - (phi ! i ! nat (idx ! i) - pmf_gamma (phi ! i)
                               - ln (relu (pmf_sum (phi ! i)) + eps))) \<and>
              (events ! i = 0 \<longrightarrow>
                 ?loss ! i = - (ln (relu (pmf_sum (phi ! i)
                                         - pmf_cumsum (phi ! i) (nat (idx ! i))) + eps)
                               - ln (relu (pmf_sum (phi ! i)) + eps)))"
      using terms by blast
  qed
qed

theorem nll_pmf_per_sample_witness:
  "\<exists>loss. nll_pmf [[0, 0], [0, 0]] [1, 0] [1, 0] ''none'' default_epsilon = Inr (T1 loss) \<and>
     length loss = 2 \<and>
     loss ! 0 = - (0 - pmf_gamma [0, 0] - ln (relu (pmf_sum [0, 0]) + default_epsilon)) \<and>
     loss ! 1 = - (ln (relu (pmf_sum [0, 0] - pmf_cumsum [0, 0] 0) + default_epsilon)
                   - ln (relu (pmf_sum [0, 0]) + default_epsilon))"
proof -
  have "\<exists>loss. nll_pmf [[0, 0], [0, 0]] [1, 0] [1, 0] ''none'' default_epsilon = Inr (T1 loss) \<and>
           length loss = length [[0, 0], [0::real, 0]] \<and>
           (\<forall>i<length [[0, 0], [0::real, 0]].
              ([1, 0::real] ! i = 1 \<longrightarrow>
                 loss ! i = - ([[0, 0], [0, 0]] ! i ! nat ([1, 0] ! i) - pmf_gamma ([[0, 0], [0, 0]] ! i)
                               - ln (relu (pmf_sum ([[0, 0], [0, 0]] ! i)) + default_epsilon))) \<and>
              ([1, 0::real] ! i = 0 \<longrightarrow>
                 loss ! i = - (ln (relu (pmf_sum ([[0, 0], [0, 0]] ! i)
                                         - pmf_cumsum ([[0, 0], [0, 0]] ! i) (nat ([1, 0] ! i))) + default_epsilon)
                               - ln (relu (pmf_sum ([[0, 0], [0, 0]] ! i)) + default_epsilon))))"
    by (rule nll_pmf_per_sample [where K = 2]) simp_all
  then obtain loss where
    a: "nll_pmf [[0, 0], [0, 0]] [1, 0] [1, 0] ''none'' default_epsilon = Inr (T1 loss)"
    and b: "length loss = 2"
    and c: "\<forall>i<2.
              ([1, 0::real] ! i = 1 \<longrightarrow>
                 loss ! i = - ([[0, 0], [0, 0]] ! i ! nat ([1, 0] ! i) - pmf_gamma ([[0, 0], [0, 0]] ! i)
                               - ln (relu (pmf_sum ([[0, 0], [0, 0]] ! i)) + default_epsilon))) \<and>
              ([1, 0::real] ! i = 0 \<longrightarrow>
                 loss ! i = - (ln (relu (pmf_sum ([[0, 0], [0, 0]] ! i)
                                         - pmf_cumsum ([[0, 0], [0, 0]] ! i) (nat ([1, 0] ! i))) + default_epsilon)
                               - ln (relu (pmf_sum ([[0, 0], [0, 0]] ! i)) + default_epsilon)))"
    by auto
  from c [rule_format, of 0] c [rule_format, of 1] a b show ?thesis by simp
qed

section \<open>Proofs: the difference of cumulative distributions\<close>

lemma shape1_rect: "rect n m a \<Longrightarrow> 0 < n \<Longrightarrow> shape1 a = m"
  by (cases a) (auto simp: rect_def shape1_def)

lemma transpose01_rect:
  assumes "rect n m a" "0 < n"
  shows "rect m n (transpose01 a)"
    and "\<And>i j. i < n \<Longrightarrow> j < m \<Longrightarrow> transpose01 a ! j ! i = a ! i ! j"
  using assms shape1_rect [OF assms] by (simp_all add: transpose01_def rect_def)

lemma dot_sum: "length u = length v \<Longrightarrow> dot u v = (\<Sum>k<length u. u ! k * v ! k)"
  by (simp add: dot_def sum_list_sum_nth atLeast0LessThan)

lemma dot_one_hot:
  assumes "length v = m" "t < m"
  shows "dot v (one_hot m t) = v ! t"
proof -
  have "dot v (one_hot m t) = (\<Sum>k<m. v ! k * (if k = t then 1 else 0))"
    using assms by (simp add: dot_sum one_hot_def)
  also have "\<dots> = (\<Sum>k<m. if k = t then v ! k else 0)"
    by (rule sum.cong) simp_all
  also have "\<dots> = v ! t" using assms by simp
  finally show ?thesis .
qed

lemma transpose01_transpose01:
  assumes "rect n m a" "0 < n" "0 < m"
  shows "transpose01 (transpose01 a) = a"
proof (rule nth_equalityI)
  have r: "rect m n (transpose01 a)" using assms by (simp add: transpose01_rect)
  have rr: "rect n m (transpose01 (transpose01 a))"
    using transpose01_rect(1) [OF r \<open>0 < m\<close>] .
  show "length (transpose01 (transpose01 a)) = length a"
    using rr assms by (simp add: rect_def)
  fix i assume "i < length (transpose01 (transpose01 a))"
  then have i: "i < n" using rr by (simp add: rect_def)
  show "transpose01 (transpose01 a) ! i = a ! i"
  proof (rule nth_equalityI)
    show "length (transpose01 (transpose01 a) ! i) = length (a ! i)"
      using rr assms i by (simp add: rect_def)
    fix j assume "j < length (transpose01 (transpose01 a) ! i)"
    then have j: "j < m" using rr i by (simp add: rect_def)
    show "transpose01 (transpose01 a) ! i ! j = a ! i ! j"
      using transpose01_rect(2) [OF r \<open>0 < m\<close> j i] transpose01_rect(2) [OF assms(1,2) i j]
      by simp
  qed
qed

lemma matmul_transpose01:
  assumes "rect n m y" "0 < n" "0 < m"
  shows "matmul a (transpose01 y) = map (\<lambda>row. map (dot row) y) a"
  using transpose01_transpose01 [OF assms] by (simp add: matmul_def)

text \<open>
  Claim C2. For a pmf matrix and the one-hot matrix \<open>y\<close> that marks in row \<open>i\<close> the
  observed bin \<open>T_i\<close> of sample \<open>i\<close>, \<open>_diff_cdf_at_time_i\<close> returns the matrix
  with entries \<open>R_ij = F_i(T_i) - F_j(T_i)\<close>, where \<open>F_i\<close> is the cumulative sum of row
  \<open>i\<close> of the pmf. The example of the specification, pmf = [[0.3, 0.7], [0.5, 0.5]]
  with bins [1, 0], gives [[0, 0], [0.2, 0]].
\<close>

theorem diff_cdf_at_time_i_spec:
  assumes pmf: "length pmf = n" "\<forall>row\<in>set pmf. length row = m"
    and T: "length T = n" "\<forall>t\<in>set T. t < m"
    and y: "y = map (one_hot m) T"
  shows "diff_cdf_at_time_i pmf y =
         map (\<lambda>i. map (\<lambda>j. cdf (pmf ! i) (T ! i) - cdf (pmf ! j) (T ! i)) [0..<n]) [0..<n]"
proof (cases "n = 0")
  case True
  then show ?thesis using pmf T y
    by (simp add: diff_cdf_at_time_i_def matmul_def transpose01_def shape1_def
        diag_def mat_sub_def)
next
  case False
  then have n: "0 < n" by simp
  have m: "0 < m" using T n by (cases T) auto
  have ry: "rect n m y" using y T by (simp add: rect_def one_hot_def)
  let ?C = "map cumsum pmf"
  let ?r = "map (\<lambda>row. map (dot row) y) ?C"
  have r: "matmul ?C (transpose01 y) = ?r" by (rule matmul_transpose01 [OF ry n m])
  have Tm: "T ! j < m" if "j < n" for j using that T by (metis nth_mem)
  have rij: "?r ! i ! j = cdf (pmf ! i) (T ! j)" if "i < n" "j < n" for i j
  proof -
    have "length (cumsum (pmf ! i)) = m" using that pmf by simp
    then have "dot (cumsum (pmf ! i)) (one_hot m (T ! j)) = cumsum (pmf ! i) ! (T ! j)"
      using Tm [OF that(2)] by (rule dot_one_hot)
    also have "\<dots> = cdf (pmf ! i) (T ! j)"
      using Tm [OF that(2)] that pmf by (simp add: cumsum_nth cdf_def)
    finally show ?thesis using that pmf T y by simp
  qed
  let ?d = "diag ?r"
  have dl: "length ?d = n" using pmf by (simp add: diag_def)
  have d: "?d ! i = cdf (pmf ! i) (T ! i)" if "i < n" for i
    using that rij [OF that that] pmf by (simp add: diag_def)
  have ones: "matmul (replicate n [1]) [?d] = replicate n ?d"
  proof -
    have "map (dot [1]) (transpose01 [?d]) = ?d"
      by (rule nth_equalityI) (simp_all add: transpose01_def shape1_def dot_def)
    then show ?thesis by (simp add: matmul_def)
  qed
  let ?r' = "mat_sub (replicate n ?d) ?r"
  have rr': "rect n n ?r'"
    using pmf T y dl by (simp add: rect_def mat_sub_def)
  have r'ij: "?r' ! i ! j = cdf (pmf ! j) (T ! j) - cdf (pmf ! i) (T ! j)" if "i < n" "j < n" for i j
    using that rij [OF that] d [OF that(2)] pmf T y dl by (simp add: mat_sub_def)
  have "diff_cdf_at_time_i pmf y = transpose01 ?r'"
    using r ones pmf by (simp add: diff_cdf_at_time_i_def Let_def)
  also have "\<dots> = map (\<lambda>i. map (\<lambda>j. cdf (pmf ! i) (T ! i) - cdf (pmf ! j) (T ! i)) [0..<n]) [0..<n]"
  proof (rule nth_equalityI)
    show "length (transpose01 ?r') =
          length (map (\<lambda>i. map (\<lambda>j. cdf (pmf ! i) (T ! i) - cdf (pmf ! j) (T ! i)) [0..<n]) [0..<n])"
      using transpose01_rect(1) [OF rr' n] by (simp add: rect_def)
    fix i assume "i < length (transpose01 ?r')"
    then have i: "i < n" using transpose01_rect(1) [OF rr' n] by (simp add: rect_def)
    show "transpose01 ?r' ! i =
          map (\<lambda>i. map (\<lambda>j. cdf (pmf ! i) (T ! i) - cdf (pmf ! j) (T ! i)) [0..<n]) [0..<n] ! i"
    proof (rule nth_equalityI)
      show "length (transpose01 ?r' ! i) =
            length (map (\<lambda>i. map (\<lambda>j. cdf (pmf ! i) (T ! i) - cdf (pmf ! j) (T ! i)) [0..<n]) [0..<n] ! i)"
        using transpose01_rect(1) [OF rr' n] i by (simp add: rect_def)
      fix j assume "j < length (transpose01 ?r' ! i)"
      then have j: "j < n" using transpose01_rect(1) [OF rr' n] i by (simp add: rect_def)
      show "transpose01 ?r' ! i ! j =
            map (\<lambda>i. map (\<lambda>j. cdf (pmf ! i) (T ! i) - cdf (pmf ! j) (T ! i)) [0..<n]) [0..<n] ! i ! j"
        using transpose01_rect(2) [OF rr' n j i] r'ij [OF j i] i j by simp
    qed
  qed
  finally show ?thesis .
qed

theorem diff_cdf_at_time_i_spec_witness:
  "diff_cdf_at_time_i [[3/10, 7/10], [5/10, 5/10]] [[0, 1], [1, 0]] = [[0, 0], [2/10, 0]]"
  using diff_cdf_at_time_i_spec [of "[[3/10, 7/10], [5/10, 5/10]]" 2 2 "[1, 0]" "[[0, 1], [1, 0]]"]
  by (simp add: one_hot_def cdf_def upt_rec numeral_2_eq_2)

section \<open>Proofs: the errors of nll_pmf\<close>

lemma gather1_fail:
  "length ds = length m \<Longrightarrow> \<exists>(row, d) \<in> set (zip m ds). \<not> (0 \<le> d \<and> d < int (length row))
   \<Longrightarrow> gather1 m ds = Inl IndexOutOfBounds"
proof (induction m ds rule: gather1.induct)
  case (1 row rows d ds)
  show ?case
  proof (cases "0 \<le> d \<and> d < int (length row)")
    case True
    with 1 have "gather1 rows ds = Inl IndexOutOfBounds" by auto
    with True show ?thesis by (simp add: gather_entry_def)
  next
    case False
    then show ?thesis by (auto simp: gather_entry_def)
  qed
qed simp_all

lemma int_max_ge:
  assumes "ds \<noteq> []"
  shows "(k \<le> int_max ds) = (\<exists>d\<in>set ds. k \<le> d)"
proof -
  have "(k \<le> int_max ds) = (\<not> int_max ds < k)" by auto
  also have "\<dots> = (\<not> (\<forall>d\<in>set ds. d < k))" using int_max_lt [OF assms] by simp
  also have "\<dots> = (\<exists>d\<in>set ds. k \<le> d)" by (auto simp: not_less)
  finally show ?thesis .
qed

lemma reduction_fn_valid:
  "red \<in> {''none'', ''mean'', ''sum''} \<Longrightarrow> \<exists>t. reduction_fn loss red = Inr t"
  by (auto simp: reduction_fn_def)

lemma nll_pmf_negative_index:
  assumes len: "length idx = length phi"
    and rows: "\<forall>row\<in>set phi. length row = K"
    and small: "\<forall>d\<in>set idx. d < int (shape1 phi)"
    and neg: "\<exists>d\<in>set idx. d < 0"
  shows "nll_pmf phi idx events red eps = Inl IndexOutOfBounds"
proof -
  have idx_ne: "idx \<noteq> []" using neg by auto
  then have nolarge: "\<not> int (shape1 phi) \<le> int_max idx"
    using small int_max_ge [OF idx_ne, of "int (shape1 phi)"] by auto
  from neg obtain i where i: "i < length idx" "idx ! i < 0"
    by (auto simp: in_set_conv_nth)
  have "gather1 (pad_col phi) idx = Inl IndexOutOfBounds"
  proof (rule gather1_fail)
    show "length idx = length (pad_col phi)" using len by (simp add: pad_col_def)
    have "(pad_col phi ! i, idx ! i) \<in> set (zip (pad_col phi) idx)"
      using i len by (auto simp: in_set_zip pad_col_def intro!: exI [of _ i])
    with i show "\<exists>(row, d)\<in>set (zip (pad_col phi) idx). \<not> (0 \<le> d \<and> d < int (length row))"
      by (intro bexI [of _ "(pad_col phi ! i, idx ! i)"]) simp_all
  qed
  then show ?thesis using idx_ne nolarge by (simp add: nll_pmf_def Let_def)
qed

text \<open>
  Claim C4, as the code has it. For a batch with matching shapes and a valid reduction
  mode, \<open>nll_pmf\<close> raises its own error ('t_idx' too large) exactly when
  \<open>idx_durations\<close> is not empty and one of its entries is at least \<open>phi.shape[1]\<close>. It
  fails for other reasons as well: on an empty \<open>idx_durations\<close> (the maximum of an empty
  tensor) and on a negative entry (gather accepts none). For a non-empty
  \<open>idx_durations\<close> with every entry in \<open>[0, phi.shape[1])\<close> it raises nothing.
\<close>

theorem nll_pmf_failure_cases:
  assumes len: "length idx = length phi" "length events = length phi"
    and rows: "\<forall>row\<in>set phi. length row = K"
    and red: "red \<in> {''none'', ''mean'', ''sum''}"
  shows "(nll_pmf phi idx events red eps = Inl TIdxTooLarge) =
           (idx \<noteq> [] \<and> (\<exists>d\<in>set idx. int (shape1 phi) \<le> d)) \<and>
         (\<exists>e. nll_pmf phi idx events red eps = Inl e) =
           (idx = [] \<or> (\<exists>d\<in>set idx. int (shape1 phi) \<le> d \<or> d < 0))"
proof (cases "idx = []")
  case True
  then show ?thesis by (simp add: nll_pmf_def)
next
  case ne: False
  show ?thesis
  proof (cases "\<exists>d\<in>set idx. int (shape1 phi) \<le> d")
    case True
    then have "nll_pmf phi idx events red eps = Inl TIdxTooLarge"
      using ne int_max_ge [OF ne, of "int (shape1 phi)"] by (simp add: nll_pmf_def)
    with True ne show ?thesis by auto
  next
    case small: False
    show ?thesis
    proof (cases "\<exists>d\<in>set idx. d < 0")
      case True
      have "nll_pmf phi idx events red eps = Inl IndexOutOfBounds"
        using len(1) rows _ True by (rule nll_pmf_negative_index) (use small in force)
      with True small ne show ?thesis by auto
    next
      case False
      have phi_ne: "phi \<noteq> []" using ne len by auto
      then have K: "shape1 phi = K" using rows by (rule shape1_rows)
      have rng: "\<forall>d\<in>set idx. 0 \<le> d \<and> d < int K" using small False K by force
      obtain t where "nll_pmf phi idx events red eps = Inr t"
        using nll_pmf_value [OF len rows rng phi_ne, of red eps] reduction_fn_valid [OF red]
        by metis
      with False small ne show ?thesis by auto
    qed
  qed
qed

theorem nll_pmf_failure_cases_witness:
  "nll_pmf [[0]] [1] [1] ''mean'' default_epsilon = Inl TIdxTooLarge \<and>
   (\<exists>e. nll_pmf [[0]] [- 1] [1] ''mean'' default_epsilon = Inl e) \<and>
   (\<exists>t. nll_pmf [[0]] [0] [1] ''mean'' default_epsilon = Inr t)"
  using nll_pmf_failure_cases [of "[1]" "[[0]]" "[1]" 1 "''mean''" default_epsilon]
    nll_pmf_failure_cases [of "[- 1]" "[[0]]" "[1]" 1 "''mean''" default_epsilon]
    nll_pmf_failure_cases [of "[0]" "[[0]]" "[1]" 1 "''mean''" default_epsilon]
  by (simp add: shape1_def) (metis sumE)

text \<open>
  The claim as it is written fails on a negative index: with \<open>phi = [[0]]\<close> and
  \<open>idx_durations = [-1]\<close> no entry reaches \<open>phi.shape[1] = 1\<close>, and \<open>nll_pmf\<close>
  fails in gather.
\<close>

theorem nll_pmf_fails_on_negative_index:
  "nll_pmf [[0]] [- 1] [1] ''mean'' default_epsilon = Inl IndexOutOfBounds \<and>
   (- 1 :: int) < int (shape1 [[0 :: real]])"
  by (simp add: nll_pmf_def shape1_def pad_col_def gather_entry_def)

section \<open>Proofs: nll_pmf_cr\<close>

lemma index3_ok:
  "\<forall>(s, e, d) \<in> set (zip t (zip es ds)). index_rd s e d = Inr (g s e d) \<Longrightarrow>
   index3 t es ds = Inr (map (\<lambda>(s, e, d). g s e d) (zip t (zip es ds)))"
  by (induction t es ds rule: index3.induct) simp_all

lemma index_cols_ok:
  "\<forall>(s, d) \<in> set (zip t ds). index_col s d = Inr (g s d) \<Longrightarrow>
   index_cols t ds = Inr (map (\<lambda>(s, d). g s d) (zip t ds))"
  by (induction t ds rule: index_cols.induct) simp_all

lemma wrap_index_nonneg: "0 \<le> i \<Longrightarrow> i < int n \<Longrightarrow> wrap_index n i = Inr (nat i)"
  by (simp add: wrap_index_def)

lemma wrap_index_minus_one: "0 < n \<Longrightarrow> wrap_index n (- 1) = Inr (n - 1)"
  by (auto simp: wrap_index_def nat_diff_distrib)

lemma length_concat_rect: "rect R K s \<Longrightarrow> length (concat s) = R * K"
proof -
  assume r: "rect R K s"
  then have "map length s = replicate R K"
    by (intro nth_equalityI) (simp_all add: rect_def)
  then show ?thesis by (simp add: length_concat sum_list_replicate)
qed

lemma unflatten_rect: "length xs = R * K \<Longrightarrow> rect R K (unflatten R K xs)"
proof -
  assume l: "length xs = R * K"
  have "length (take K (drop (r * K) xs)) = K" if "r < R" for r
  proof -
    have "Suc r * K \<le> R * K" using that by (intro mult_le_mono1) simp
    then show ?thesis using l by simp
  qed
  then show ?thesis by (simp add: rect_def unflatten_def)
qed

lemma softmax_length [simp]: "length (softmax xs) = length xs"
  by (simp add: softmax_def)

lemma shape12_shaped3:
  "shaped3 n R K phi \<Longrightarrow> 0 < n \<Longrightarrow> 0 < R \<Longrightarrow> shape1 phi = R \<and> shape2 phi = K"
  by (cases phi) (auto simp: shaped3_def shape1_def shape2_def rect_def split: list.splits)

lemma joint_pmf_rect:
  assumes "shaped3 n R K phi" "0 < R" "i < n"
  shows "rect R K (joint_pmf phi ! i)"
proof -
  have n: "0 < n" using assms by simp
  have s: "shape1 phi = R" "shape2 phi = K" using shape12_shaped3 [OF assms(1) n assms(2)] by simp_all
  have "rect R K (phi ! i)" using assms by (simp add: shaped3_def)
  then have "length (butlast (softmax (concat (phi ! i) @ [0]))) = R * K"
    by (simp add: length_concat_rect)
  then have "rect R K (unflatten R K (butlast (softmax (concat (phi ! i) @ [0]))))"
    by (rule unflatten_rect)
  then show ?thesis using assms s by (simp add: joint_pmf_def pad_col_def shaped3_def)
qed

lemma joint_pmf_length [simp]: "length (joint_pmf phi) = length phi"
  by (simp add: joint_pmf_def pad_col_def)

lemma nll_pmf_cr_value:
  assumes sh: "shaped3 n R K phi" and R: "0 < R"
    and len: "length idx = n" "length events = n"
    and ev: "\<forall>e\<in>set events. 0 \<le> e \<and> e \<le> int R"
    and rng: "\<forall>d\<in>set idx. 0 \<le> d \<and> d < int K"
  shows "nll_pmf_cr phi idx events red eps =
         reduction_fn
           (T1 (map (\<lambda>i. sample_nll_cr (joint_pmf phi ! i) (events ! i) (idx ! i) eps) [0..<n]))
           red"
proof -
  let ?sm = "joint_pmf phi"
  let ?ev = "remap_events events"
  let ?g = "\<lambda>s e (d::int). s ! (if 0 \<le> e then nat e else R - 1) ! nat d"
  let ?h = "\<lambda>s (d::int). map (\<lambda>row. row ! nat d) s"
  have n: "length phi = n" using sh by (simp add: shaped3_def)
  have sm: "rect R K (?sm ! i)" if "i < n" for i using that by (rule joint_pmf_rect [OF sh R])
  have d: "0 \<le> idx ! i \<and> idx ! i < int K" if "i < n" for i
    using that rng len by (metis nth_mem)
  have e: "0 \<le> events ! i \<and> events ! i \<le> int R" if "i < n" for i
    using that ev len by (metis nth_mem)
  have g1: "index3 ?sm ?ev idx = Inr (map (\<lambda>(s, e, d). ?g s e d) (zip ?sm (zip ?ev idx)))"
  proof (rule index3_ok, intro ballI, clarify)
    fix s e0 d0 assume "(s, e0, d0) \<in> set (zip ?sm (zip ?ev idx))"
    then obtain i where i': "i < n" and eqs: "s = ?sm ! i" "e0 = ?ev ! i" "d0 = idx ! i"
      using n len by (auto simp: in_set_zip)
    let ?e = "remap_events events ! i"
    have er: "?e = events ! i - 1" using i' len by (simp add: remap_events_def)
    have l: "length (?sm ! i) = R" using sm [OF i'] by (simp add: rect_def)
    have w: "wrap_index R ?e = Inr (if 0 \<le> ?e then nat ?e else R - 1)"
    proof (cases "0 \<le> ?e")
      case True
      then show ?thesis using e [OF i'] er by (simp add: wrap_index_nonneg)
    next
      case False
      then have "?e = - 1" using e [OF i'] er by simp
      then show ?thesis using R by (simp add: wrap_index_minus_one)
    qed
    have r: "(if 0 \<le> ?e then nat ?e else R - 1) < R" using e [OF i'] er R by auto
    then have "length (?sm ! i ! (if 0 \<le> ?e then nat ?e else R - 1)) = K"
      using sm [OF i'] by (simp add: rect_def)
    then have "wrap_index (length (?sm ! i ! (if 0 \<le> ?e then nat ?e else R - 1))) (idx ! i)
               = Inr (nat (idx ! i))"
      using d [OF i'] by (simp add: wrap_index_nonneg)
    then have "index_rd (?sm ! i) ?e (idx ! i) = Inr (?g (?sm ! i) ?e (idx ! i))"
      using w l by (simp add: index_rd_def)
    then show "index_rd s e0 d0 = Inr (?g s e0 d0)" using eqs by simp
  qed
  have g2: "index_cols (map (map cumsum) ?sm) idx =
            Inr (map (\<lambda>(s, d). ?h s d) (zip (map (map cumsum) ?sm) idx))"
  proof (rule index_cols_ok, intro ballI, clarify)
    fix s d0 assume "(s, d0) \<in> set (zip (map (map cumsum) ?sm) idx)"
    then obtain i where i': "i < n" and eqs: "s = map cumsum (?sm ! i)" "d0 = idx ! i"
      using n len by (auto simp: in_set_zip)
    have "rect R K (map cumsum (?sm ! i))" using sm [OF i'] by (simp add: rect_def)
    then have "shape1 (map cumsum (?sm ! i)) = K" using R by (rule shape1_rect)
    then show "index_col s d0 = Inr (?h s d0)"
      using d [OF i'] eqs by (simp add: index_col_def wrap_index_nonneg)
  qed
  let ?loss = "map uminus (map2 (+)
      (map2 (*) (map (\<lambda>x. ln (relu x + eps)) (map (\<lambda>(s, e, d). ?g s e d) (zip ?sm (zip ?ev idx))))
                (event_indicator ?ev))
      (map2 (*) (map (\<lambda>row. ln (relu (1 - sum_list row) + eps))
                   (map (\<lambda>(s, d). ?h s d) (zip (map (map cumsum) ?sm) idx)))
                (map (\<lambda>e. 1 - e) (event_indicator ?ev))))"
  have "nll_pmf_cr phi idx events red eps = reduction_fn (T1 ?loss) red"
    unfolding nll_pmf_cr_def Let_def using g1 g2 by simp
  moreover have "?loss =
     map (\<lambda>i. sample_nll_cr (joint_pmf phi ! i) (events ! i) (idx ! i) eps) [0..<n]"
  proof (rule nth_equalityI)
    show "length ?loss =
          length (map (\<lambda>i. sample_nll_cr (joint_pmf phi ! i) (events ! i) (idx ! i) eps) [0..<n])"
      using n len by (simp add: remap_events_def event_indicator_def)
    fix i assume "i < length ?loss"
    then have i: "i < n" using n len by (simp add: remap_events_def event_indicator_def)
    have er: "remap_events events ! i = events ! i - 1" using i len by (simp add: remap_events_def)
    show "?loss ! i =
          map (\<lambda>i. sample_nll_cr (joint_pmf phi ! i) (events ! i) (idx ! i) eps) [0..<n] ! i"
      using i n len er e [OF i]
      by (auto simp: remap_events_def event_indicator_def sample_nll_cr_def comp_def)
  qed
  ultimately show ?thesis by simp
qed

lemma nll_pmf_cr_none:
  assumes "shaped3 n R K phi" and "0 < R"
    and "length idx = n" "length events = n"
    and "\<forall>e\<in>set events. 0 \<le> e \<and> e \<le> int R"
    and "\<forall>d\<in>set idx. 0 \<le> d \<and> d < int K"
  shows "nll_pmf_cr phi idx events ''none'' eps =
         Inr (T1 (map (\<lambda>i. sample_nll_cr (joint_pmf phi ! i) (events ! i) (idx ! i) eps) [0..<n]))"
  using nll_pmf_cr_value [OF assms, of "''none''" eps] by (simp add: reduction_fn_def)

text \<open>
  Claim C5, as the code has it. In \<open>nll_pmf_cr\<close> the event types are remapped by
  subtracting 1, so that the internal label \<open>-1\<close> (the original label 0) denotes a
  censored sample: a sample is treated as censored exactly when its internal label is
  \<open>-1\<close>, and then its loss is the censored term; any other internal label \<open>r\<close> selects
  the pmf entry of risk \<open>r\<close> at the observed bin.
\<close>

theorem nll_pmf_cr_censored_label:
  assumes "shaped3 n R K phi" and "0 < R"
    and "length idx = n" "length events = n"
    and "\<forall>e\<in>set events. 0 \<le> e \<and> e \<le> int R"
    and "\<forall>d\<in>set idx. 0 \<le> d \<and> d < int K"
  shows "\<exists>loss. nll_pmf_cr phi idx events ''none'' eps = Inr (T1 loss) \<and> length loss = n \<and>
          (\<forall>i<n.
             (remap_events events ! i = - 1) = (events ! i = 0) \<and>
             (event_indicator (remap_events events) ! i = 0) = (remap_events events ! i = - 1) \<and>
             (remap_events events ! i = - 1 \<longrightarrow>
                loss ! i = - ln (relu (1 - (\<Sum>row\<leftarrow>joint_pmf phi ! i. cumsum row ! nat (idx ! i))) + eps)) \<and>
             (remap_events events ! i \<noteq> - 1 \<longrightarrow>
                loss ! i = - ln (relu (joint_pmf phi ! i ! nat (remap_events events ! i) ! nat (idx ! i)) + eps)))"
proof -
  let ?loss = "map (\<lambda>i. sample_nll_cr (joint_pmf phi ! i) (events ! i) (idx ! i) eps) [0..<n]"
  have out: "nll_pmf_cr phi idx events ''none'' eps = Inr (T1 ?loss)"
    using assms by (rule nll_pmf_cr_none)
  have terms: "(remap_events events ! i = - 1) = (events ! i = 0) \<and>
        (event_indicator (remap_events events) ! i = 0) = (remap_events events ! i = - 1) \<and>
        (remap_events events ! i = - 1 \<longrightarrow>
           ?loss ! i = - ln (relu (1 - (\<Sum>row\<leftarrow>joint_pmf phi ! i. cumsum row ! nat (idx ! i))) + eps)) \<and>
        (remap_events events ! i \<noteq> - 1 \<longrightarrow>
           ?loss ! i = - ln (relu (joint_pmf phi ! i ! nat (remap_events events ! i) ! nat (idx ! i)) + eps))"
    if "i < n" for i
    using that assms(4) by (simp add: remap_events_def event_indicator_def sample_nll_cr_def)
  have len: "length ?loss = n" by simp
  from out len terms show ?thesis by blast
qed

theorem nll_pmf_cr_censored_label_witness:
  "\<exists>loss. nll_pmf_cr [[[0, 0]], [[0, 0]]] [0, 0] [0, 1] ''none'' default_epsilon = Inr (T1 loss) \<and>
     length loss = 2 \<and>
     remap_events [0, 1] = [- 1, 0] \<and>
     event_indicator (remap_events [0, 1]) = [0, 1] \<and>
     loss ! 0 = - ln (relu (1 - (\<Sum>row\<leftarrow>joint_pmf [[[0, 0]], [[0, 0]]] ! 0. cumsum row ! 0)) + default_epsilon) \<and>
     loss ! 1 = - ln (relu (joint_pmf [[[0, 0]], [[0, 0]]] ! 1 ! 0 ! 0) + default_epsilon)"
proof -
  have "shaped3 2 1 2 [[[0, 0]], [[0, 0]]]"
    by (simp add: shaped3_def rect_def)
  from nll_pmf_cr_censored_label [OF this, of "[0, 0]" "[0, 1]" default_epsilon]
  obtain loss where
    a: "nll_pmf_cr [[[0, 0]], [[0, 0]]] [0, 0] [0, 1] ''none'' default_epsilon = Inr (T1 loss)"
       "length loss = 2"
    and b: "\<forall>i<2.
             (remap_events [0, 1] ! i = - 1) = ([0, 1 :: int] ! i = 0) \<and>
             (event_indicator (remap_events [0, 1]) ! i = 0) = (remap_events [0, 1] ! i = - 1) \<and>
             (remap_events [0, 1] ! i = - 1 \<longrightarrow>
                loss ! i = - ln (relu (1 - (\<Sum>row\<leftarrow>joint_pmf [[[0, 0]], [[0, 0]]] ! i. cumsum row ! nat ([0, 0] ! i))) + default_epsilon)) \<and>
             (remap_events [0, 1] ! i \<noteq> - 1 \<longrightarrow>
                loss ! i = - ln (relu (joint_pmf [[[0, 0]], [[0, 0]]] ! i ! nat (remap_events [0, 1] ! i) ! nat ([0, 0] ! i)) + default_epsilon))"
    by auto
  have r: "remap_events [0, 1] = [- 1, 0]" "event_indicator (remap_events [0, 1]) = [0, 1]"
    by (simp_all add: remap_events_def event_indicator_def)
  from b [rule_format, of 0] b [rule_format, of 1] a r show ?thesis by simp
qed

lemma joint_pmf_example: "joint_pmf [[[0, 0]]] = [[[1/3, 1/3]]]"
  by (simp add: joint_pmf_def shape1_def shape2_def pad_col_def softmax_def unflatten_def)

text \<open>
  The claim as it is written says that the internal label 0 denotes censoring. A sample
  of event type 1 has the internal label 0 and is treated as an event of the first risk:
  its loss is the event term, which differs from the censored term.
\<close>

theorem nll_pmf_cr_internal_label_zero_is_event:
  "remap_events [1] = [0] \<and> event_indicator (remap_events [1]) = [1] \<and>
   nll_pmf_cr [[[0, 0]]] [0] [1] ''none'' default_epsilon
     = Inr (T1 [- ln (1/3 + default_epsilon)]) \<and>
   - ln (1/3 + default_epsilon) \<noteq> - ln (1 - 1/3 + default_epsilon)"
proof -
  have "nll_pmf_cr [[[0, 0]]] [0] [1] ''none'' default_epsilon
          = Inr (T1 [- ln (1/3 + default_epsilon)])"
    by (simp add: nll_pmf_cr_def joint_pmf_example remap_events_def event_indicator_def
        index_rd_def wrap_index_def index_col_def shape1_def cumsum_def relu_def
        reduction_fn_def default_epsilon_def)
  moreover have "- ln (1/3 + default_epsilon) \<noteq> - ln (1 - 1/3 + default_epsilon)"
    by (simp add: default_epsilon_def)
  ultimately show ?thesis by (simp add: remap_events_def event_indicator_def)
qed

lemma wrap_index_less: "wrap_index n i = Inr r \<Longrightarrow> r < n"
  by (auto simp: wrap_index_def split: if_splits)

lemma wrap_index_error: "wrap_index n i = Inl x \<Longrightarrow> x = IndexOutOfBounds"
  by (auto simp: wrap_index_def split: if_splits)

lemma index_rd_error: "index_rd s e d = Inl x \<Longrightarrow> x = IndexOutOfBounds"
  by (auto simp: index_rd_def bind_err_def dest: wrap_index_error split: sum.splits)

lemma index3_error: "index3 t es ds = Inl x \<Longrightarrow> x = IndexOutOfBounds"
proof (induction t es ds rule: index3.induct)
  case (1 s ss e es d ds)
  then show ?case
    by (auto simp: bind_err_def dest: index_rd_error split: sum.splits)
qed simp_all

lemma index3_fail:
  "(s, e, d) \<in> set (zip t (zip es ds)) \<Longrightarrow> index_rd s e d = Inl x \<Longrightarrow>
   \<exists>y. index3 t es ds = Inl y"
proof (induction t es ds rule: index3.induct)
  case (1 s' ss e' es d' ds)
  then show ?case by (auto simp: bind_err_def split: sum.splits)
qed simp_all

text \<open>
  Claim C10. \<open>nll_pmf_cr\<close> does not validate \<open>idx_durations\<close> against the number of
  duration bins: when an entry is greater than or equal to the number of bins, the call
  fails with the backend's error of the indexing into the softmax output, not with an
  index-range error of its own as \<open>nll_pmf\<close> does.
\<close>

theorem nll_pmf_cr_no_index_check:
  assumes sh: "shaped3 n R K phi"
    and len: "length idx = n" "length events = n"
    and big: "\<exists>d\<in>set idx. int K \<le> d"
  shows "nll_pmf_cr phi idx events red eps = Inl IndexOutOfBounds"
proof -
  have n: "length phi = n" using sh by (simp add: shaped3_def)
  from big obtain i where i: "i < n" "int K \<le> idx ! i"
    using len by (auto simp: in_set_conv_nth)
  let ?s = "joint_pmf phi ! i" and ?e = "remap_events events ! i"
  have mem: "(?s, ?e, idx ! i) \<in> set (zip (joint_pmf phi) (zip (remap_events events) idx))"
    using i n len by (auto simp: in_set_zip remap_events_def intro!: exI [of _ i])
  have "\<exists>x. index_rd ?s ?e (idx ! i) = Inl x"
  proof (cases "wrap_index (length ?s) ?e")
    case (Inl x)
    then show ?thesis by (simp add: index_rd_def)
  next
    case (Inr r)
    then have r: "r < length ?s" by (rule wrap_index_less)
    have "shape1 phi = R" using sh i n
      by (cases phi) (auto simp: shaped3_def shape1_def rect_def)
    then have "length ?s = R" using i n
      by (simp add: joint_pmf_def pad_col_def unflatten_def)
    then have "0 < R" using r by linarith
    then have "rect R K ?s" using i(1) by (rule joint_pmf_rect [OF sh])
    then have "length (?s ! r) = K" using r \<open>length ?s = R\<close> by (simp add: rect_def)
    then have "wrap_index (length (?s ! r)) (idx ! i) = Inl IndexOutOfBounds"
      using i by (simp add: wrap_index_def)
    with Inr show ?thesis by (simp add: index_rd_def)
  qed
  then obtain x where "index_rd ?s ?e (idx ! i) = Inl x" ..
  with mem obtain y where "index3 (joint_pmf phi) (remap_events events) idx = Inl y"
    using index3_fail by blast
  then have "index3 (joint_pmf phi) (remap_events events) idx = Inl IndexOutOfBounds"
    using index3_error by blast
  then show ?thesis by (simp add: nll_pmf_cr_def Let_def)
qed

theorem nll_pmf_cr_no_index_check_witness:
  "nll_pmf_cr [[[0]]] [1] [1] ''mean'' default_epsilon = Inl IndexOutOfBounds"
  using nll_pmf_cr_no_index_check [of 1 1 1 "[[[0]]]" "[1]" "[1]" "''mean''" default_epsilon]
  by (simp add: shaped3_def rect_def)

section \<open>Proofs: one risk\<close>







lemma relu_pos: "0 < x \<Longrightarrow> relu x = x"
  by (simp add: relu_def)













section \<open>Proofs: the reduction modes\<close>

lemma consistent_of_form:
  assumes "\<And>red. f red = bind_err r (\<lambda>t. reduction_fn t red)"
  shows "reductions_consistent f"
  using assms by (cases r) (simp_all add: reductions_consistent_def reduction_fn_def)

lemma form_value:
  assumes "\<And>red. f red = reduction_fn t red"
  shows "\<exists>r. \<forall>red. f red = bind_err r (\<lambda>t. reduction_fn t red)"
  using assms by (intro exI [of _ "Inr t"]) simp

lemma form_error:
  assumes "\<And>red. f red = Inl e"
  shows "\<exists>r. \<forall>red. f red = bind_err r (\<lambda>t. reduction_fn t red)"
  using assms by (intro exI [of _ "Inl e"]) simp

lemma nll_pmf_form:
  "\<exists>r. \<forall>red. nll_pmf phi idx events red eps = bind_err r (\<lambda>t. reduction_fn t red)"
proof (cases "idx = [] \<or> int (shape1 phi) \<le> int_max idx")
  case True
  then show ?thesis
    by (intro exI [of _ "Inl (if idx = [] then EmptyReduction else TIdxTooLarge)"])
      (auto simp: nll_pmf_def)
next
  case False
  let ?phi' = "pad_col phi"
  let ?gamma = "map row_max ?phi'"
  let ?cs = "map2 (\<lambda>row g. cumsum (map (\<lambda>x. exp (x - g)) row)) ?phi' ?gamma"
  show ?thesis
  proof (cases "gather1 ?phi' idx")
    case (Inl e)
    with False have "nll_pmf phi idx events red eps = Inl e" for red
      by (simp add: nll_pmf_def Let_def)
    then show ?thesis by (rule form_error)
  next
    case g1: (Inr a)
    show ?thesis
    proof (cases "gather1 ?cs idx")
      case (Inl e)
      with False g1 have "nll_pmf phi idx events red eps = Inl e" for red
        by (simp add: nll_pmf_def Let_def)
      then show ?thesis by (rule form_error)
    next
      case (Inr b)
      have "nll_pmf phi idx events red eps =
            reduction_fn (T1 (map uminus (map2 (+) (map2 (+)
             (map2 (*) (map2 (-) a ?gamma) events)
             (map (\<lambda>s. - ln (relu s + eps)) (map last ?cs)))
             (map2 (*) (map (\<lambda>x. ln (relu x + eps)) (map2 (-) (map last ?cs) b))
                (map (\<lambda>e. 1 - e) events))))) red" for red
        unfolding nll_pmf_def Let_def using False g1 Inr by simp
      then show ?thesis by (rule form_value)
    qed
  qed
qed

lemma nll_pmf_cr_form:
  "\<exists>r. \<forall>red. nll_pmf_cr phi idx events red eps = bind_err r (\<lambda>t. reduction_fn t red)"
proof (cases "index3 (joint_pmf phi) (remap_events events) idx")
  case (Inl e)
  then show ?thesis
    by (intro exI [of _ "Inl e"]) (simp add: nll_pmf_cr_def Let_def)
next
  case g1: (Inr a)
  show ?thesis
  proof (cases "index_cols (map (map cumsum) (joint_pmf phi)) idx")
    case (Inl e)
    with g1 show ?thesis
      by (intro exI [of _ "Inl e"]) (simp add: nll_pmf_cr_def Let_def)
  next
    case (Inr b)
    have "nll_pmf_cr phi idx events red eps =
          reduction_fn (T1 (map uminus (map2 (+)
            (map2 (*) (map (\<lambda>x. ln (relu x + eps)) a) (event_indicator (remap_events events)))
            (map2 (*) (map (\<lambda>row. ln (relu (1 - sum_list row) + eps)) b)
               (map (\<lambda>e. 1 - e) (event_indicator (remap_events events))))))) red" for red
      unfolding nll_pmf_cr_def Let_def using g1 Inr by simp
    then show ?thesis by (rule form_value)
  qed
qed

lemma rank_loss_deephit_form:
  "rank_loss_deephit pmf y rank_mat sg red =
   reduction_fn (T2 (map (\<lambda>row. [sum_list row / real (length row)])
      (map2 (map2 (*)) rank_mat (map (map (\<lambda>x. exp (- x / sg))) (diff_cdf_at_time_i pmf y))))) red"
  by (simp add: rank_loss_deephit_def Let_def)

lemma rank_loss_deephit_single_form:
  "\<exists>r. \<forall>red. rank_loss_deephit_single phi idx events rank_mat sg red
      = bind_err r (\<lambda>t. reduction_fn t red)"
proof (cases "scatter1 (zeros_like (map softmax (pad_col phi))) idx 1")
  case (Inl e)
  then show ?thesis
    by (intro exI [of _ "Inl e"]) (simp add: rank_loss_deephit_single_def Let_def)
next
  case (Inr y)
  have "rank_loss_deephit_single phi idx events rank_mat sg red =
        reduction_fn (T2 (map (\<lambda>row. [sum_list row / real (length row)])
          (map2 (map2 (*)) rank_mat (map (map (\<lambda>x. exp (- x / sg)))
             (diff_cdf_at_time_i (map softmax (pad_col phi)) y))))) red" for red
    unfolding rank_loss_deephit_single_def Let_def rank_loss_deephit_form using Inr by simp
  then show ?thesis by (rule form_value)
qed

lemma diff_cdf_length:
  assumes "length pmf = n" "length y = n" "0 < n" "0 < shape1 y"
  shows "length (diff_cdf_at_time_i pmf y) = n"
proof -
  let ?C = "map cumsum pmf"
  let ?r0 = "matmul ?C (transpose01 y)"
  let ?r' = "mat_sub (matmul (replicate n [1]) [diag ?r0]) ?r0"
  have ty: "transpose01 y \<noteq> []" using assms(4) by (simp add: transpose01_def)
  have "shape1 (transpose01 y) = n"
    using assms by (simp add: transpose01_def shape1_def upt_conv_Cons split: list.splits)
  then have tt: "length (transpose01 (transpose01 y)) = n" by (simp add: transpose01_def)
  have l0: "length ?r0 = n" using assms by (simp add: matmul_def)
  have row0: "length (?r0 ! 0) = n" using assms tt by (simp add: matmul_def)
  have d: "length (diag ?r0) = n" using l0 by (simp add: diag_def)
  have a: "length (matmul (replicate n [1]) [diag ?r0] ! 0) = n"
    using assms d by (simp add: matmul_def transpose01_def shape1_def)
  have "length ?r' = n" using l0 by (simp add: mat_sub_def matmul_def)
  moreover have "length (?r' ! 0) = n"
    using l0 row0 a assms(3) by (simp add: mat_sub_def matmul_def)
  ultimately have "shape1 ?r' = n" using assms(3)
    by (cases ?r') (simp_all add: shape1_def)
  then show ?thesis using assms
    by (simp add: diff_cdf_at_time_i_def Let_def transpose01_def)
qed

lemma set_col_rect: "set_col s d v = Inr s' \<Longrightarrow> rect R K s \<Longrightarrow> rect R K s'"
  by (auto simp: set_col_def bind_err_def rect_def split: sum.splits)

lemma set_cols_shaped3:
  "set_cols t ds v = Inr y \<Longrightarrow> shaped3 n R K t \<Longrightarrow> shaped3 n R K y"
proof (induction t ds v arbitrary: y n rule: set_cols.induct)
  case (1 s ss d ds v)
  from 1(2) obtain s' ys where s': "set_col s d v = Inr s'"
    and ys: "set_cols ss ds v = Inr ys" and y: "y = s' # ys"
    by (auto simp: bind_err_def split: sum.splits)
  have "shaped3 (length ss) R K ss" using 1(3) by (simp add: shaped3_def)
  then have "shaped3 (length ss) R K ys" using 1(1) [OF ys] by simp
  moreover have "rect R K s'" using s' 1(3) by (auto intro: set_col_rect simp: shaped3_def)
  ultimately show ?case using 1(3) y by (auto simp: shaped3_def)
qed (auto simp: shaped3_def)

lemma zeros_like_shaped3: "shaped3 n R K t \<Longrightarrow> shaped3 n R K (map zeros_like t)"
  by (auto simp: shaped3_def rect_def zeros_like_def)

lemma joint_pmf_shaped3:
  assumes "shaped3 n R K phi" "0 < R"
  shows "shaped3 n R K (joint_pmf phi)"
proof -
  have "length (joint_pmf phi) = n" using assms by (simp add: shaped3_def)
  moreover have "rect R K s" if "s \<in> set (joint_pmf phi)" for s
  proof -
    from that obtain i where "i < length (joint_pmf phi)" "s = joint_pmf phi ! i"
      by (auto simp: in_set_conv_nth)
    then show ?thesis using joint_pmf_rect [OF assms, of i] assms(1) by (simp add: shaped3_def)
  qed
  ultimately show ?thesis by (simp add: shaped3_def)
qed

lemma slice_shape:
  assumes "shaped3 n R K t" "0 < n" "i < R"
  shows "length (map (\<lambda>s. s ! i) t) = n" "shape1 (map (\<lambda>s. s ! i) t) = K"
proof -
  show "length (map (\<lambda>s. s ! i) t) = n" using assms by (simp add: shaped3_def)
  have "rect R K (t ! 0)" using assms by (simp add: shaped3_def)
  then have "length (t ! 0 ! i) = K" using assms by (simp add: rect_def)
  then show "shape1 (map (\<lambda>s. s ! i) t) = K" using assms
    by (cases t) (simp_all add: shape1_def shaped3_def)
qed

lemma elems_rank_loss_none:
  "rank_loss_deephit pmf y rank_mat sg ''none'' = Inr t \<Longrightarrow>
   length (elems t) = min (length rank_mat) (length (diff_cdf_at_time_i pmf y))"
  by (auto simp: rank_loss_deephit_form reduction_fn_def length_concat comp_def
      sum_list_triv)

lemma rank_loss_cr_loop_lengths:
  assumes "rank_loss_cr_loop pmf y events rank_mat sg risks acc = Inr loss"
    and "\<forall>i\<in>set risks. length (diff_cdf_at_time_i (map (\<lambda>s. s ! i) pmf) (map (\<lambda>s. s ! i) y)) = n"
    and "length rank_mat = n" "length events = n"
    and "\<forall>v\<in>set acc. length v = n"
  shows "\<forall>v\<in>set loss. length v = n"
  using assms
proof (induction risks arbitrary: acc)
  case Nil
  then show ?case by simp
next
  case (Cons i risks)
  from Cons.prems(1) obtain t where
    t: "rank_loss_deephit (map (\<lambda>s. s ! i) pmf) (map (\<lambda>s. s ! i) y) rank_mat sg ''none'' = Inr t"
    and rest: "rank_loss_cr_loop pmf y events rank_mat sg risks
        (acc @ [map2 (*) (elems t) (map (\<lambda>e. if e = int i then 1 else 0) events)]) = Inr loss"
    by (auto simp: bind_err_def split: sum.splits)
  have "length (elems t) = n"
    using elems_rank_loss_none [OF t] Cons.prems(2,3) by simp
  then have "\<forall>v\<in>set (acc @ [map2 (*) (elems t) (map (\<lambda>e. if e = int i then 1 else 0) events)]).
              length v = n"
    using Cons.prems(4,5) by simp
  with Cons.IH [OF rest] Cons.prems show ?case by simp
qed

lemma sum_list_map2_add:
  "length u = length v \<Longrightarrow> sum_list (map2 (+) u v) = sum_list u + sum_list (v :: real list)"
  by (induction u v rule: list_induct2) simp_all

lemma py_sum_from_vectors:
  assumes "\<forall>v\<in>set vs. length v = n" "length acc = n"
  shows "\<exists>w. py_sum_from (T1 acc) (map T1 vs) = Inr (T1 w) \<and> length w = n \<and>
             sum_list w = sum_list acc + (\<Sum>v\<leftarrow>vs. sum_list v)"
  using assms
proof (induction vs arbitrary: acc)
  case Nil
  then show ?case by simp
next
  case (Cons v vs)
  have "length (map2 (+) acc v) = n" using Cons.prems by simp
  then obtain w where "py_sum_from (T1 (map2 (+) acc v)) (map T1 vs) = Inr (T1 w)"
    "length w = n" "sum_list w = sum_list (map2 (+) acc v) + (\<Sum>v\<leftarrow>vs. sum_list v)"
    using Cons.IH [of "map2 (+) acc v"] Cons.prems(1) by auto
  then show ?case using Cons.prems
    by (simp add: tadd_def bc_vec_def sum_list_map2_add)
qed

lemma py_sum_from_scalars:
  "py_sum_from (T0 a) (map (\<lambda>v. T0 (g v)) vs) = Inr (T0 (a + (\<Sum>v\<leftarrow>vs. g v)))"
  by (induction vs arbitrary: a) (simp_all add: tadd_def add.assoc)

lemma sum_list_div: "(\<Sum>v\<leftarrow>vs. g v / c) = (\<Sum>v\<leftarrow>vs. g v) / (c :: real)"
  by (induction vs) (simp_all add: add_divide_distrib)

lemma py_sum_consistent:
  assumes "\<forall>v\<in>set vs. length v = n"
  shows "\<exists>t. py_sum (map T1 vs) = Inr t \<and>
             py_sum (map (\<lambda>lo. T0 (tsum (T1 lo))) vs) = Inr (T0 (tsum t)) \<and>
             py_sum (map (\<lambda>lo. T0 (tmean (T1 lo))) vs) = Inr (T0 (tmean t))"
proof (cases vs)
  case Nil
  then show ?thesis by (simp add: py_sum_def tsum_def tmean_def)
next
  case (Cons v vs')
  have v: "length v = n" and vs': "\<forall>u\<in>set vs'. length u = n" using assms Cons by simp_all
  have "length (map ((+) 0) v) = n" using v by simp
  from py_sum_from_vectors [OF vs' this]
  obtain w where w: "py_sum_from (T1 (map ((+) 0) v)) (map T1 vs') = Inr (T1 w)"
    "length w = n" "sum_list w = sum_list (map ((+) 0) v) + (\<Sum>u\<leftarrow>vs'. sum_list u)"
    by blast
  have none: "py_sum (map T1 vs) = Inr (T1 w)"
    using w(1) Cons by (simp add: py_sum_def tadd_def)
  have "map ((+) 0) v = v" by (rule map_idI) simp
  then have total: "sum_list w = (\<Sum>u\<leftarrow>vs. sum_list u)" using w(3) Cons by simp
  have s: "py_sum (map (\<lambda>lo. T0 (tsum (T1 lo))) vs) = Inr (T0 (tsum (T1 w)))"
    using py_sum_from_scalars [of 0 "\<lambda>lo. tsum (T1 lo)" vs] total
    by (simp add: py_sum_def tsum_def)
  have "(\<Sum>u\<leftarrow>vs. tmean (T1 u)) = (\<Sum>u\<leftarrow>vs. sum_list u / real n)"
    using assms by (intro arg_cong [of _ _ sum_list] map_cong) (simp_all add: tmean_def)
  also have "\<dots> = sum_list w / real n" by (simp add: sum_list_div total)
  finally have "(\<Sum>u\<leftarrow>vs. tmean (T1 u)) = tmean (T1 w)" using w(2) by (simp add: tmean_def)
  then have m: "py_sum (map (\<lambda>lo. T0 (tmean (T1 lo))) vs) = Inr (T0 (tmean (T1 w)))"
    using py_sum_from_scalars [of 0 "\<lambda>lo. tmean (T1 lo)" vs] by (simp add: py_sum_def)
  from none s m show ?thesis by blast
qed

lemma rank_loss_deephit_cr_consistent:
  assumes sh: "shaped3 n R K phi" and n: "0 < n" and K: "0 < K"
    and len: "length rank_mat = n" "length events = n"
  shows "reductions_consistent (rank_loss_deephit_cr phi idx events rank_mat sg)"
proof (cases "set_cols (map zeros_like (joint_pmf phi)) idx 1")
  case (Inl e)
  then show ?thesis
    by (simp add: reductions_consistent_def rank_loss_deephit_cr_def Let_def)
next
  case y: (Inr y)
  let ?ev = "remap_events events"
  show ?thesis
  proof (cases "rank_loss_cr_loop (joint_pmf phi) y ?ev rank_mat sg [0..<shape1 phi] []")
    case (Inl e)
    with y show ?thesis
      by (simp add: reductions_consistent_def rank_loss_deephit_cr_def Let_def)
  next
    case loss: (Inr loss)
    have s1: "shape1 phi = R" using sh n
      by (cases phi) (auto simp: shaped3_def shape1_def rect_def)
    have "length (diff_cdf_at_time_i (map (\<lambda>s. s ! i) (joint_pmf phi)) (map (\<lambda>s. s ! i) y)) = n"
      if "i \<in> set [0..<shape1 phi]" for i
    proof -
      have i: "i < R" using that s1 by simp
      then have R: "0 < R" by simp
      have p: "shaped3 n R K (joint_pmf phi)" using sh R by (rule joint_pmf_shaped3)
      then have "shaped3 n R K (map zeros_like (joint_pmf phi))" by (rule zeros_like_shaped3)
      with y have ysh: "shaped3 n R K y" by (rule set_cols_shaped3)
      show ?thesis
        using slice_shape [OF p n i] slice_shape [OF ysh n i] n K
        by (intro diff_cdf_length) simp_all
    qed
    then have "\<forall>v\<in>set loss. length v = n"
      using rank_loss_cr_loop_lengths [OF loss _ len(1)] len(2)
      by (simp add: remap_events_def)
    from py_sum_consistent [OF this]
    obtain t where "py_sum (map T1 loss) = Inr t"
      "py_sum (map (\<lambda>lo. T0 (tsum (T1 lo))) loss) = Inr (T0 (tsum t))"
      "py_sum (map (\<lambda>lo. T0 (tmean (T1 lo))) loss) = Inr (T0 (tmean t))"
      by blast
    with y loss show ?thesis
      by (simp add: reductions_consistent_def rank_loss_deephit_cr_def Let_def)
  qed
qed

text \<open>
  Claim C8. For \<open>nll_pmf\<close>, \<open>nll_pmf_cr\<close>, \<open>rank_loss_deephit_single\<close> and
  \<open>rank_loss_deephit_cr\<close> the reduction modes agree: the sum of the output under
  \<open>'none'\<close> is the output under \<open>'sum'\<close>, and its mean is the output under
  \<open>'mean'\<close>. The first three reduce one loss tensor; \<open>rank_loss_deephit_cr\<close> reduces
  the loss of each risk and adds the results, which is the same for a batch tensor of
  shape \<open>[n, R, K]\<close> with \<open>rank_mat\<close> and \<open>events\<close> of \<open>n\<close> rows.
\<close>

theorem reduction_modes_consistent:
  assumes "shaped3 n R K phi3" and "0 < n" and "0 < K"
    and "length rank_mat3 = n" and "length events3 = n"
  shows "reductions_consistent (\<lambda>red. nll_pmf phi idx events red eps) \<and>
         reductions_consistent (\<lambda>red. nll_pmf_cr phi3 idx3 events3 red eps) \<and>
         reductions_consistent (rank_loss_deephit_single phi idx events rank_mat sg) \<and>
         reductions_consistent (rank_loss_deephit_cr phi3 idx3 events3 rank_mat3 sg)"
proof (intro conjI)
  show "reductions_consistent (\<lambda>red. nll_pmf phi idx events red eps)"
  proof -
    obtain r where "\<forall>red. nll_pmf phi idx events red eps = bind_err r (\<lambda>t. reduction_fn t red)"
      using nll_pmf_form by blast
    then show ?thesis by (intro consistent_of_form [where r = r]) simp
  qed
  show "reductions_consistent (\<lambda>red. nll_pmf_cr phi3 idx3 events3 red eps)"
  proof -
    obtain r where
      "\<forall>red. nll_pmf_cr phi3 idx3 events3 red eps = bind_err r (\<lambda>t. reduction_fn t red)"
      using nll_pmf_cr_form by blast
    then show ?thesis by (intro consistent_of_form [where r = r]) simp
  qed
  show "reductions_consistent (rank_loss_deephit_single phi idx events rank_mat sg)"
  proof -
    obtain r where "\<forall>red. rank_loss_deephit_single phi idx events rank_mat sg red
        = bind_err r (\<lambda>t. reduction_fn t red)"
      using rank_loss_deephit_single_form by blast
    then show ?thesis by (intro consistent_of_form [where r = r]) simp
  qed
  show "reductions_consistent (rank_loss_deephit_cr phi3 idx3 events3 rank_mat3 sg)"
    using assms by (rule rank_loss_deephit_cr_consistent)
qed

theorem reduction_modes_consistent_witness:
  "reductions_consistent (\<lambda>red. nll_pmf [[0], [0]] [0, 0] [1, 0] red default_epsilon) \<and>
   reductions_consistent (\<lambda>red. nll_pmf_cr [[[0]], [[0]]] [0, 0] [1, 0] red default_epsilon) \<and>
   reductions_consistent (rank_loss_deephit_single [[0], [0]] [0, 0] [1, 0] [[0, 1], [0, 0]] 1) \<and>
   reductions_consistent (rank_loss_deephit_cr [[[0]], [[0]]] [0, 0] [1, 0] [[0, 1], [0, 0]] 1)"
  using reduction_modes_consistent [of 2 1 1 "[[[0]], [[0]]]" "[[0, 1], [0, 0]]" "[1, 0]"
      "[[0], [0]]" "[0, 0]" "[1, 0]" default_epsilon "[0, 0]" "[[0, 1], [0, 0]]" 1]
  by (simp add: shaped3_def rect_def)

section \<open>Proofs: the loss modules\<close>

text \<open>
  Claim C9. \<open>forward\<close> of \<open>NLLPMFLoss\<close>, \<open>DeepHitSingleLoss\<close> and \<open>DeepHitLoss\<close>
  leaves the module as it was, for every input batch: the fields \<open>reduction\<close>,
  \<open>alpha\<close> and \<open>sigma\<close> after the call are those before it, also when the call
  raises.
\<close>

theorem forward_leaves_module_unchanged:
  "snd (NLLPMFLoss_forward self phi idx events) = self \<and>
   snd (DeepHitSingleLoss_forward m phi idx events rank_mat) = m \<and>
   snd (DeepHitLoss_forward m phi3 idx3 events3 rank_mat3) = m \<and>
   reduction (snd (NLLPMFLoss_forward self phi idx events)) = reduction self \<and>
   reduction (snd (DeepHitSingleLoss_forward m phi idx events rank_mat)) = reduction m \<and>
   alpha (snd (DeepHitSingleLoss_forward m phi idx events rank_mat)) = alpha m \<and>
   sigma (snd (DeepHitSingleLoss_forward m phi idx events rank_mat)) = sigma m \<and>
   reduction (snd (DeepHitLoss_forward m phi3 idx3 events3 rank_mat3)) = reduction m \<and>
   alpha (snd (DeepHitLoss_forward m phi3 idx3 events3 rank_mat3)) = alpha m \<and>
   sigma (snd (DeepHitLoss_forward m phi3 idx3 events3 rank_mat3)) = sigma m"
  by (simp add: NLLPMFLoss_forward_def DeepHitSingleLoss_forward_def DeepHitLoss_forward_def)

section \<open>Proofs: the label transforms\<close>

text \<open>
  Claim C6, on the code. An instance constructed with an array of cut points has neither
  \<open>cuts\<close> nor \<open>idu\<close>; \<open>fit\<close> warns and returns the instance as it is, without
  building the index mapper, and a \<open>transform\<close> after it fails with an AttributeError.
  The claim that \<open>transform\<close> succeeds after such a \<open>fit\<close> does not hold of the code.
\<close>

theorem fit_with_predefined_cuts_builds_no_mapper:
  "LabTransDiscreteSurv_init (CutsArray (c # cs)) m =
     Inr \<lparr>predefinded_cuts = True, cuts_given = CutsArray (c # cs), min_duration = m,
          cuts = None, idu = None\<rparr> \<and>
   LabTransDiscreteSurv_fit make_cuts
     \<lparr>predefinded_cuts = True, cuts_given = CutsArray (c # cs), min_duration = m,
      cuts = None, idu = None\<rparr> durations events =
     Inr (\<lparr>predefinded_cuts = True, cuts_given = CutsArray (c # cs), min_duration = m,
           cuts = None, idu = None\<rparr>, [already_defined_warning]) \<and>
   LabTransDiscreteSurv_transform idu_transform
     \<lparr>predefinded_cuts = True, cuts_given = CutsArray (c # cs), min_duration = m,
      cuts = None, idu = None\<rparr> durations events = Inl AttributeError"
  by (simp add: LabTransDiscreteSurv_init_def LabTransDiscreteSurv_fit_def
      LabTransDiscreteSurv_transform_def)

lemma dict_of_map_of:
  "dict_of kvs m k = (case map_of (rev kvs) k of Some v \<Rightarrow> Some v | None \<Rightarrow> m k)"
proof (induction kvs arbitrary: m)
  case Nil
  then show ?case by simp
next
  case (Cons kv kvs)
  obtain k' v' where kv: "kv = (k', v')" by (cases kv)
  show ?case
    by (simp add: kv Cons.IH map_add_def split: option.splits)
qed

lemma dict_of_zip_lookup:
  assumes "length ks = length vs" "i < length ks"
    and "\<And>j. j < length ks \<Longrightarrow> ks ! j = ks ! i \<Longrightarrow> vs ! j = vs ! i"
  shows "dict_of (zip ks vs) Map.empty (ks ! i) = Some (vs ! i)"
proof -
  have "(ks ! i, vs ! i) \<in> set (rev (zip ks vs))"
    using assms(1,2) by (auto simp: in_set_zip intro!: exI [of _ i])
  then have "ks ! i \<in> fst ` set (rev (zip ks vs))" by force
  then obtain v where v: "map_of (rev (zip ks vs)) (ks ! i) = Some v"
    by (meson map_of_eq_None_iff option.exhaust)
  then have "(ks ! i, v) \<in> set (zip ks vs)" using map_of_SomeD by fastforce
  then obtain j where "j < length ks" "ks ! j = ks ! i" "vs ! j = v"
    using assms(1) by (auto simp: in_set_zip)
  then have "v = vs ! i" using assms(3) by blast
  with v show ?thesis by (simp add: dict_of_map_of)
qed

lemma dict_of_zip_unseen:
  assumes "k \<notin> set ks"
  shows "dict_of (zip ks vs) Map.empty k = None"
proof -
  have "k \<notin> fst ` set (rev (zip ks vs))" using assms by (auto dest: set_zip_leftD)
  then have "map_of (rev (zip ks vs)) k = None" by (simp add: map_of_eq_None_iff)
  then show ?thesis by (simp add: dict_of_map_of)
qed

lemma round_half_even_int: "round_half_even (of_int n) = n"
  by (simp add: round_half_even_def)

lemma round_half_even_below:
  assumes "0 \<le> r" "r < 1 / 2"
  shows "round_half_even (of_int n + r) = n"
proof -
  have "\<lfloor>of_int n + r\<rfloor> = n" using assms by (intro floor_unique) simp_all
  then show ?thesis using assms by (simp add: round_half_even_def)
qed

lemma round_half_even_tie:
  assumes "even n"
  shows "round_half_even (of_int n + 1 / 2) = n"
proof -
  have "\<lfloor>of_int n + (1 / 2 :: real)\<rfloor> = n" by (intro floor_unique) simp_all
  then show ?thesis using assms by (simp add: round_half_even_def)
qed

lemma floor_log2:
  assumes "2 ^ k \<le> \<bar>x\<bar>" "\<bar>x\<bar> < 2 ^ Suc k"
  shows "\<lfloor>log 2 \<bar>x :: real\<bar>\<rfloor> = int k"
proof -
  have "(0::real) < 2 ^ k" by simp
  then have pos: "0 < \<bar>x\<bar>" using assms(1) by linarith
  have a: "real k \<le> log 2 \<bar>x\<bar>"
  proof -
    have "2 powr real k \<le> \<bar>x\<bar>" using assms(1) by (simp only: powr_realpow zero_less_numeral)
    then show ?thesis using pos by (subst le_log_iff) simp_all
  qed
  have b: "log 2 \<bar>x\<bar> < real k + 1"
  proof -
    have "\<bar>x\<bar> < 2 powr real (Suc k)"
      using assms(2) by (simp only: powr_realpow zero_less_numeral)
    then have "\<bar>x\<bar> < 2 powr (real k + 1)" by (simp add: add.commute)
    then show ?thesis using pos by (subst log_less_iff) simp_all
  qed
  show ?thesis
  proof (rule floor_unique)
    show "of_int (int k) \<le> log 2 \<bar>x\<bar>" using a by simp
    show "log 2 \<bar>x\<bar> < of_int (int k) + 1" using b by simp
  qed
qed

lemma powr_neg_pow: "k \<le> 52 \<Longrightarrow> (2::real) powr real_of_int (int k - 52) = 1 / 2 ^ (52 - k)"
proof -
  assume k: "k \<le> 52"
  have "real_of_int (int k - 52) = - real (52 - k)" using k by simp
  then have "(2::real) powr real_of_int (int k - 52) = 2 powr (- real (52 - k))"
    by (rule arg_cong)
  also have "\<dots> = inverse (2 powr real (52 - k))" by (rule powr_minus)
  also have "\<dots> = inverse (2 ^ (52 - k))" by (simp only: powr_realpow zero_less_numeral)
  finally show ?thesis by (simp only: divide_inverse mult_1)
qed

lemma fl64_eval:
  assumes "2 ^ k \<le> \<bar>x\<bar>" "\<bar>x\<bar> < 2 ^ Suc k" "k \<le> 52"
  shows "fl64 x = of_int (round_half_even (x * 2 ^ (52 - k))) / 2 ^ (52 - k)"
proof -
  have "(0::real) < 2 ^ k" by simp
  then have "0 < \<bar>x\<bar>" using assms(1) by linarith
  then have nz: "x \<noteq> 0" by simp
  have fl: "\<lfloor>log 2 \<bar>x\<bar>\<rfloor> = int k" using assms(1,2) by (rule floor_log2)
  have p: "(2::real) powr real_of_int (int k - 52) = 1 / 2 ^ (52 - k)"
    using assms(3) by (rule powr_neg_pow)
  have "fl64 x = of_int (round_half_even (x / (1 / 2 ^ (52 - k)))) * (1 / 2 ^ (52 - k))"
    using nz by (simp only: fl64_def Let_def fl p if_False)
  then show ?thesis by simp
qed

lemma fl64_examples:
  "fl64 (1 + 3) = 4" "fl64 (4 / 2) = 2" "fl64 (1 - 2) = - 1" "fl64 (3 - 2) = 1"
  "fl64 (1 + (1 + 1 / 2 ^ 52)) = 2"
  "fl64 (2 + 10 ^ 6) = 1000002"
  "fl64 (1000002 / 3) = 333334"
  "fl64 (1 - 333334) = - 333333"
  "fl64 (1 + 1 / 2 ^ 52 - 333334) = - 333333"
  "fl64 (10 ^ 6 - 333334) = 666666"
proof -
  show "fl64 (1 + 3) = 4"
    using fl64_eval [of 2 "1 + 3"] round_half_even_int [of "4 * 2 ^ 50"] by simp
  show "fl64 (4 / 2) = 2"
    using fl64_eval [of 1 "4 / 2"] round_half_even_int [of "2 * 2 ^ 51"] by simp
  show "fl64 (1 - 2) = - 1"
    using fl64_eval [of 0 "1 - 2"] round_half_even_int [of "- (2 ^ 52)"] by simp
  show "fl64 (3 - 2) = 1"
    using fl64_eval [of 0 "3 - 2"] round_half_even_int [of "2 ^ 52"] by simp
  show "fl64 (1 + (1 + 1 / 2 ^ 52)) = 2"
  proof -
    have "(1 + (1 + 1 / 2 ^ 52)) * 2 ^ 51 = of_int (2 ^ 52) + (1 / 2 :: real)" by simp
    then have "round_half_even ((1 + (1 + 1 / 2 ^ 52)) * 2 ^ 51) = 2 ^ 52"
      using round_half_even_tie [of "2 ^ 52"] by simp
    then show ?thesis using fl64_eval [of 1 "1 + (1 + 1 / 2 ^ 52)"] by simp
  qed
  show "fl64 (2 + 10 ^ 6) = 1000002"
    using fl64_eval [of 19 "2 + 10 ^ 6"] round_half_even_int [of "1000002 * 2 ^ 33"] by simp
  show "fl64 (1000002 / 3) = 333334"
    using fl64_eval [of 18 "1000002 / 3"] round_half_even_int [of "333334 * 2 ^ 34"] by simp
  show "fl64 (1 - 333334) = - 333333"
    using fl64_eval [of 18 "1 - 333334"] round_half_even_int [of "- 333333 * 2 ^ 34"] by simp
  show "fl64 (1 + 1 / 2 ^ 52 - 333334) = - 333333"
  proof -
    have "(1 + 1 / 2 ^ 52 - 333334) * 2 ^ 34 = of_int (- 333333 * 2 ^ 34) + (1 / 2 ^ 18 :: real)"
      by simp
    then have "round_half_even ((1 + 1 / 2 ^ 52 - 333334) * 2 ^ 34) = - 333333 * 2 ^ 34"
      using round_half_even_below [of "1 / 2 ^ 18" "- 333333 * 2 ^ 34"] by simp
    then show ?thesis using fl64_eval [of 18 "1 + 1 / 2 ^ 52 - 333334"] by simp
  qed
  show "fl64 (10 ^ 6 - 333334) = 666666"
    using fl64_eval [of 19 "10 ^ 6 - 333334"] round_half_even_int [of "666666 * 2 ^ 33"] by simp
qed

lemma dict_of_snoc: "dict_of (kvs @ [(k, v)]) m = (dict_of kvs m)(k \<mapsto> v)"
  by (induction kvs arbitrary: m) auto

lemma dict_of_last:
  "i < length kvs \<Longrightarrow>
   \<exists>j<length kvs. fst (kvs ! j) = fst (kvs ! i) \<and>
      (\<forall>k<length kvs. j < k \<longrightarrow> fst (kvs ! k) \<noteq> fst (kvs ! i)) \<and>
      dict_of kvs m (fst (kvs ! i)) = Some (snd (kvs ! j))"
proof (induction kvs arbitrary: i rule: rev_induct)
  case Nil
  then show ?case by simp
next
  case (snoc kv kvs)
  obtain k v where kv: "kv = (k, v)" by (cases kv)
  let ?key = "fst ((kvs @ [kv]) ! i)"
  show ?case
  proof (cases "?key = k")
    case True
    have "fst ((kvs @ [kv]) ! length kvs) = ?key" using True kv by simp
    moreover have "dict_of (kvs @ [kv]) m ?key = Some (snd ((kvs @ [kv]) ! length kvs))"
      using True by (simp add: kv dict_of_snoc)
    ultimately show ?thesis by (intro exI [of _ "length kvs"]) simp
  next
    case False
    then have i: "i < length kvs" using snoc.prems kv
      by (cases "i = length kvs") simp_all
    then have key: "?key = fst (kvs ! i)" by (simp add: nth_append)
    from snoc.IH [OF i] obtain j where j: "j < length kvs" "fst (kvs ! j) = fst (kvs ! i)"
      "\<forall>k<length kvs. j < k \<longrightarrow> fst (kvs ! k) \<noteq> fst (kvs ! i)"
      "dict_of kvs m (fst (kvs ! i)) = Some (snd (kvs ! j))"
      by blast
    have "fst ((kvs @ [kv]) ! j) = ?key" using j(1,2) key by (simp add: nth_append)
    moreover have "\<forall>k'<length (kvs @ [kv]). j < k' \<longrightarrow> fst ((kvs @ [kv]) ! k') \<noteq> ?key"
    proof (intro allI impI)
      fix k' assume k': "k' < length (kvs @ [kv])" "j < k'"
      show "fst ((kvs @ [kv]) ! k') \<noteq> ?key"
      proof (cases "k' = length kvs")
        case True
        then show ?thesis using False kv by simp
      next
        case False
        then have "k' < length kvs" using k'(1) by simp
        then show ?thesis using j(3) k'(2) key by (simp add: nth_append)
      qed
    qed
    moreover have "dict_of (kvs @ [kv]) m ?key = Some (snd ((kvs @ [kv]) ! j))"
      using False j(1,4) key by (simp add: kv dict_of_snoc nth_append)
    ultimately show ?thesis using j(1) by (intro exI [of _ j]) simp
  qed
qed

lemma dict_of_zip_last:
  assumes "length ks = length vs" "i < length ks"
  shows "\<exists>j<length ks. ks ! j = ks ! i \<and> (\<forall>k<length ks. j < k \<longrightarrow> ks ! k \<noteq> ks ! i) \<and>
           dict_of (zip ks vs) Map.empty (ks ! i) = Some (vs ! j)"
proof -
  have "i < length (zip ks vs)" using assms by simp
  from dict_of_last [OF this, of Map.empty] obtain j where
    j: "j < length (zip ks vs)" "fst (zip ks vs ! j) = fst (zip ks vs ! i)"
       "\<forall>k<length (zip ks vs). j < k \<longrightarrow> fst (zip ks vs ! k) \<noteq> fst (zip ks vs ! i)"
       "dict_of (zip ks vs) Map.empty (fst (zip ks vs ! i)) = Some (snd (zip ks vs ! j))"
    by blast
  have "j < length ks" using j(1) assms by simp
  moreover have "ks ! j = ks ! i" using j(1,2) assms by simp
  moreover have "\<forall>k<length ks. j < k \<longrightarrow> ks ! k \<noteq> ks ! i"
    using j(3) assms by simp
  moreover have "dict_of (zip ks vs) Map.empty (ks ! i) = Some (vs ! j)"
    using j(1,4) assms by simp
  ultimately show ?thesis by blast
qed

lemma scaler_fit_transform_result:
  assumes "xs \<noteq> []"
  shows "\<exists>sc' f. scaler_fit_transform fl sc xs = Inr (sc', map f xs)"
proof -
  define sc' where "sc' = sc\<lparr>fitted_mean :=
                            (if with_mean sc \<or> with_std sc then Some (column_mean fl xs)
                             else None),
                          fitted_scale :=
                            (if with_std sc then Some (column_scale fl xs) else None)\<rparr>"
  have c: "\<not> ((with_mean sc' \<and> fitted_mean sc' = None) \<or>
              (with_std sc' \<and> fitted_scale sc' = None))"
    by (simp add: sc'_def)
  have tr: "scaler_transform fl sc' xs = Inr (map (\<lambda>x.
             let x1 = (case fitted_mean sc' of
                         Some m \<Rightarrow> if with_mean sc' then fl (x - m) else x
                       | None \<Rightarrow> x)
             in case fitted_scale sc' of
                  Some s \<Rightarrow> if with_std sc' then fl (x1 / s) else x1
                | None \<Rightarrow> x1) xs)"
    unfolding scaler_transform_def using c by (rule if_not_P)
  have "scaler_fit_transform fl sc xs = bind_err (scaler_transform fl sc' xs) (\<lambda>ys. Inr (sc', ys))"
    unfolding scaler_fit_transform_def Let_def sc'_def using assms by (rule if_not_P)
  then show ?thesis unfolding tr by (simp only: bind_err_simps) blast
qed

text \<open>
  Claim C7, as the code has it. For a non-empty array of training durations (greater
  than \<open>-1\<close> when the log transform is on) and whatever the rounding of the
  arithmetic, \<open>fit_transform\<close> succeeds, and \<open>map_scaled_to_orig\<close> maps each
  transformed training duration to the last training duration that has the same
  transformed value. It gives back the training durations exactly when different
  training durations have different transformed values. For a transformed value that
  did not occur in training the lookup gives no value (\<open>None\<close>).
\<close>

theorem fit_transform_round_trip:
  assumes ne: "durations \<noteq> []"
    and pos: "log_duration self \<longrightarrow> (\<forall>d\<in>set durations. - 1 < d)"
  shows "\<exists>scaled self'.
           LabTransCoxTime_fit_transform fl self durations events = Inr ((scaled, events), self') \<and>
           length scaled = length durations \<and>
           (\<forall>i<length durations. \<exists>j<length durations.
              scaled ! j = scaled ! i \<and>
              (\<forall>k<length durations. j < k \<longrightarrow> scaled ! k \<noteq> scaled ! i) \<and>
              map_scaled_to_orig self' [scaled ! i] = Inr [Some (durations ! j)]) \<and>
           ((\<forall>i<length durations. \<forall>j<length durations.
               scaled ! i = scaled ! j \<longrightarrow> durations ! i = durations ! j) \<longrightarrow>
            map_scaled_to_orig self' scaled = Inr (map Some durations)) \<and>
           (\<forall>k. k \<notin> set scaled \<longrightarrow> map_scaled_to_orig self' [k] = Inr [None])"
proof -
  define ds where "ds = (if log_duration self then map (log1p fl) durations else durations)"
  have ne': "ds \<noteq> []" using ne by (simp add: ds_def)
  have lds: "length ds = length durations" by (simp add: ds_def)
  obtain sc f where sft0: "scaler_fit_transform fl (duration_scaler self) ds = Inr (sc, map f ds)"
    using scaler_fit_transform_result [OF ne'] by blast
  define scaled where "scaled = map f ds"
  have sft: "scaler_fit_transform fl (duration_scaler self) ds = Inr (sc, scaled)"
    using sft0 by (simp only: scaled_def)
  define self' where "self' = self\<lparr>duration_scaler := sc,
      inverse_duration_map := Some (dict_of (zip scaled durations) Map.empty)\<rparr>"
  have ft: "LabTransCoxTime_fit_transform fl self durations events
            = Inr ((scaled, events), self')"
    unfolding LabTransCoxTime_fit_transform_def Let_def ds_def [symmetric] sft
    by (simp add: self'_def)
  have len: "length scaled = length durations"
    using lds by (simp add: scaled_def)
  have get: "map_scaled_to_orig self' ks = Inr (map (dict_of (zip scaled durations) Map.empty) ks)"
    for ks by (simp add: map_scaled_to_orig_def self'_def)
  have last: "\<exists>j<length durations. scaled ! j = scaled ! i \<and>
              (\<forall>k<length durations. j < k \<longrightarrow> scaled ! k \<noteq> scaled ! i) \<and>
              map_scaled_to_orig self' [scaled ! i] = Inr [Some (durations ! j)]"
    if i: "i < length durations" for i
    using dict_of_zip_last [of scaled durations i] len i by (simp add: get)
  have exact: "map_scaled_to_orig self' scaled = Inr (map Some durations)"
    if inj: "\<forall>i<length durations. \<forall>j<length durations.
               scaled ! i = scaled ! j \<longrightarrow> durations ! i = durations ! j"
  proof -
    have "map (dict_of (zip scaled durations) Map.empty) scaled = map Some durations"
    proof (rule nth_equalityI)
      show "length (map (dict_of (zip scaled durations) Map.empty) scaled)
            = length (map Some durations)" using len by simp
      fix i assume "i < length (map (dict_of (zip scaled durations) Map.empty) scaled)"
      then have i: "i < length durations" using len by simp
      have "dict_of (zip scaled durations) Map.empty (scaled ! i) = Some (durations ! i)"
      proof (rule dict_of_zip_lookup)
        show "length scaled = length durations" by (rule len)
        show "i < length scaled" using i len by simp
        show "durations ! j = durations ! i"
          if "j < length scaled" "scaled ! j = scaled ! i" for j
        proof -
          have "j < length durations" using that(1) len by simp
          then show ?thesis using inj [rule_format, of j i] i that(2) by blast
        qed
      qed
      then show "map (dict_of (zip scaled durations) Map.empty) scaled ! i = map Some durations ! i"
        using i len by simp
    qed
    then show ?thesis by (simp add: get)
  qed
  have unseen: "map_scaled_to_orig self' [k] = Inr [None]" if "k \<notin> set scaled" for k
    using dict_of_zip_unseen [OF that] by (simp add: get)
  from ft len last exact unseen show ?thesis by blast
qed

lemmas fl64_values = fl64_examples [simplified]

lemma fit_transform_example:
  "\<exists>self'. LabTransCoxTime_fit_transform fl64 (LabTransCoxTime_init False True False)
      [1, 1 + 1 / 2 ^ 52, 10 ^ 6] [1, 1, 1]
    = Inr (([- 333333, - 333333, 666666], [1, 1, 1]), self') \<and>
    inverse_duration_map self' =
      Some (dict_of (zip [- 333333, - 333333, 666666] [1, 1 + 1 / 2 ^ 52, 10 ^ 6]) Map.empty)"
  by (simp add: LabTransCoxTime_fit_transform_def LabTransCoxTime_init_def
      scaler_fit_transform_def scaler_transform_def column_mean_def Let_def fl64_values)

text \<open>
  The claim as it is written fails in double precision. With \<open>with_std = False\<close> the
  durations \<open>1\<close>, \<open>1 + 1 / 2 ^ 52\<close> and \<open>10 ^ 6\<close> have the mean 333334, the first two are
  both transformed to -333333, and the dict keeps the later of them: the round trip
  maps the duration 1 to \<open>1 + 1 / 2 ^ 52\<close>.
\<close>

theorem fit_transform_round_trip_collision:
  "fit_transform_then_map_back fl64 (LabTransCoxTime_init False True False)
     [1, 1 + 1 / 2 ^ 52, 10 ^ 6] [1, 1, 1]
   = Inr [Some (1 + 1 / 2 ^ 52), Some (1 + 1 / 2 ^ 52), Some (10 ^ 6)] \<and>
   Inr [Some (1 + 1 / 2 ^ 52), Some (1 + 1 / 2 ^ 52), Some (10 ^ 6)]
     \<noteq> (Inr (map Some [1, 1 + 1 / 2 ^ 52, 10 ^ 6]) :: error + real option list)"
proof -
  from fit_transform_example obtain self' where
    a: "LabTransCoxTime_fit_transform fl64 (LabTransCoxTime_init False True False)
      [1, 1 + 1 / 2 ^ 52, 10 ^ 6] [1, 1, 1]
    = Inr (([- 333333, - 333333, 666666], [1, 1, 1]), self')"
    and b: "inverse_duration_map self' =
      Some (dict_of (zip [- 333333, - 333333, 666666] [1, 1 + 1 / 2 ^ 52, 10 ^ 6]) Map.empty)"
    by blast
  have "map_scaled_to_orig self' [- 333333, - 333333, 666666]
        = Inr [Some (1 + 1 / 2 ^ 52), Some (1 + 1 / 2 ^ 52), Some (10 ^ 6)]"
    by (simp add: map_scaled_to_orig_def b)
  then show ?thesis unfolding fit_transform_then_map_back_def a by simp
qed

theorem fit_transform_round_trip_witness:
  "\<exists>self'.
     LabTransCoxTime_fit_transform fl64 (LabTransCoxTime_init False True False) [1, 3] [1, 0]
       = Inr (([- 1, 1], [1, 0]), self') \<and>
     map_scaled_to_orig self' [- 1, 1] = Inr [Some 1, Some 3] \<and>
     map_scaled_to_orig self' [0] = Inr [None]"
proof -
  have "\<exists>scaled self'.
           LabTransCoxTime_fit_transform fl64 (LabTransCoxTime_init False True False) [1, 3] [1, 0]
             = Inr ((scaled, [1, 0]), self') \<and>
           length scaled = length [1, 3 :: real] \<and>
           (\<forall>i<length [1, 3 :: real]. \<exists>j<length [1, 3 :: real].
              scaled ! j = scaled ! i \<and>
              (\<forall>k<length [1, 3 :: real]. j < k \<longrightarrow> scaled ! k \<noteq> scaled ! i) \<and>
              map_scaled_to_orig self' [scaled ! i] = Inr [Some ([1, 3] ! j)]) \<and>
           ((\<forall>i<length [1, 3 :: real]. \<forall>j<length [1, 3 :: real].
               scaled ! i = scaled ! j \<longrightarrow> [1, 3 :: real] ! i = [1, 3] ! j) \<longrightarrow>
            map_scaled_to_orig self' scaled = Inr (map Some [1, 3])) \<and>
           (\<forall>k. k \<notin> set scaled \<longrightarrow> map_scaled_to_orig self' [k] = Inr [None])"
    by (rule fit_transform_round_trip) (simp_all add: LabTransCoxTime_init_def)
  then obtain scaled self' where
    a: "LabTransCoxTime_fit_transform fl64 (LabTransCoxTime_init False True False) [1, 3] [1, 0]
          = Inr ((scaled, [1, 0]), self')"
    and b: "(\<forall>i<length [1, 3 :: real]. \<forall>j<length [1, 3 :: real].
               scaled ! i = scaled ! j \<longrightarrow> [1, 3 :: real] ! i = [1, 3] ! j) \<longrightarrow>
            map_scaled_to_orig self' scaled = Inr (map Some [1, 3])"
    and c: "\<forall>k. k \<notin> set scaled \<longrightarrow> map_scaled_to_orig self' [k] = Inr [None]"
    by blast
  have s: "scaled = [- 1, 1]" using a
    by (simp add: LabTransCoxTime_fit_transform_def LabTransCoxTime_init_def
        scaler_fit_transform_def scaler_transform_def column_mean_def Let_def fl64_values)
  have inj: "\<forall>i<length [1, 3 :: real]. \<forall>j<length [1, 3 :: real].
               scaled ! i = scaled ! j \<longrightarrow> [1, 3 :: real] ! i = [1, 3] ! j"
    unfolding s by (auto simp: less_Suc_eq)
  have "map_scaled_to_orig self' scaled = Inr (map Some [1, 3])" using b inj by blast
  moreover have "map_scaled_to_orig self' [0] = Inr [None]" using c [rule_format, of 0] s by simp
  ultimately show ?thesis using a s by auto
qed

end
